theory Spec2Isabelle
  imports Complex_Main "HOL-Library.Word"
begin

section \<open>Values of the program\<close>

text \<open>
  A JavaScript string is a sequence of 16-bit code units; \<open>charCodeAt\<close> reads one as a
  number. The screen buffer and the packets handed to \<open>keyboard.write\<close> are arrays of
  numbers.
\<close>

type_synonym jsstring = "16 word list"
type_synonym packet = "nat list"

text \<open>
  \<open>xs.slice(a, b)\<close> for non-negative \<open>a\<close> and \<open>b\<close>: the elements at the positions
  \<open>a \<le> k < b\<close> that exist.
\<close>

definition js_slice :: "'a list \<Rightarrow> nat \<Rightarrow> nat \<Rightarrow> 'a list" where
  "js_slice xs a b = drop a (take b xs)"

section \<open>sendToKeyboard: the screen string as raw bytes\<close>

text \<open>
  The loop of lines 344 to 350 of \<open>index.js\<close>, with the loop counter \<open>i\<close>, its bound
  \<open>n = screenHeight * screenWidth\<close> and the buffer built so far. The comparison
  \<open>i >= screen.length - 1\<close> is on JavaScript numbers, so the subtraction is an integer one.
  \<open>charCodeAt\<close> is only reached with \<open>i < screen.length - 1\<close>, inside the string.
\<close>

function fill_buffer :: "nat \<Rightarrow> nat \<Rightarrow> jsstring \<Rightarrow> nat list \<Rightarrow> nat list" where
  "fill_buffer i n screen buf =
     (if i < n
      then fill_buffer (i + 1) n screen
             (buf @ [if int i \<ge> int (length screen) - 1 then 32 else unat (screen ! i)])
      else buf)"
  by pat_completeness auto
termination
  by (relation "measure (\<lambda>(i, n, screen, buf). n - i)") auto

declare fill_buffer.simps [simp del]

text \<open>
  \<open>screenWidth\<close> and \<open>screenHeight\<close> are bytes of an inbound report, or \<open>undefined\<close>
  (\<open>None\<close>) when the report was too short to hold them. With an \<open>undefined\<close> factor the
  product is \<open>NaN\<close>, \<open>i < NaN\<close> is false and the loop body never runs.
\<close>

definition frame_bytes :: "jsstring \<Rightarrow> nat \<Rightarrow> nat \<Rightarrow> nat list" where
  "frame_bytes screen w h = fill_buffer 0 (h * w) screen []"

definition screen_to_buffer :: "jsstring \<Rightarrow> nat option \<Rightarrow> nat option \<Rightarrow> nat list" where
  "screen_to_buffer screen w h =
     (case (w, h) of
        (Some w', Some h') \<Rightarrow> frame_bytes screen w' h'
      | _ \<Rightarrow> [])"

section \<open>sendToKeyboard: the bytes split into packets\<close>

definition chunkSize :: nat where
  "chunkSize = 31"

text \<open>
  The loop of lines 357 to 362: \<open>i\<close> advances by \<open>chunkSize - 1\<close>, \<open>packetType\<close> is 2 on
  entry and 3 after the first iteration.
\<close>

function chunk_loop :: "nat \<Rightarrow> nat \<Rightarrow> nat list \<Rightarrow> packet list \<Rightarrow> packet list" where
  "chunk_loop i packetType buf lines =
     (if i < length buf
      then chunk_loop (i + (chunkSize - 1)) 3 buf
             (lines @ [[0, packetType] @
                js_slice buf i (min (i + (chunkSize - 1)) (length buf))])
      else lines)"
  by pat_completeness auto
termination
  by (relation "measure (\<lambda>(i, packetType, buf, lines). length buf - i)")
     (auto simp: chunkSize_def)

declare chunk_loop.simps [simp del]

definition split_chunks :: "nat list \<Rightarrow> packet list" where
  "split_chunks buf = chunk_loop 0 2 buf []"

section \<open>Module state\<close>

definition KEYBOARD_NAME :: string where
  "KEYBOARD_NAME = ''Kyria Keyboard''"

definition KEYBOARD_USAGE_ID :: nat where
  "KEYBOARD_USAGE_ID = 0x61"

definition KEYBOARD_USAGE_PAGE :: nat where
  "KEYBOARD_USAGE_PAGE = 0xff60"

definition KEYBOARD_UPDATE_TIME :: int where
  "KEYBOARD_UPDATE_TIME = 1000"

definition STOCK_UPDATE_TIME :: int where
  "STOCK_UPDATE_TIME = 60000"

definition STOCK_BACKGROUND_TIME :: int where
  "STOCK_BACKGROUND_TIME = STOCK_UPDATE_TIME * 30"

definition WEATHER_UPDATE_TIME :: int where
  "WEATHER_UPDATE_TIME = 60000"

definition WEATHER_BACKGROUND_TIME :: int where
  "WEATHER_BACKGROUND_TIME = WEATHER_UPDATE_TIME * 10"

definition PERF_UPDATE_TIME :: int where
  "PERF_UPDATE_TIME = KEYBOARD_UPDATE_TIME"

definition PERF_BACKGROUND_TIME :: int where
  "PERF_BACKGROUND_TIME = PERF_UPDATE_TIME * 10"

definition SCREEN_PERF :: nat where
  "SCREEN_PERF = 1"

definition SCREEN_STOCK :: nat where
  "SCREEN_STOCK = 2"

definition SCREEN_WEATHER :: nat where
  "SCREEN_WEATHER = 3"

text \<open>
  A screen is a function \<open>(w, h) => string\<close>. \<open>None\<close> as its result stands for a
  renderer that throws (the bar graph of \<open>getPerfs\<close> calls \<open>repeat\<close> with a count that
  is negative for a small \<open>w\<close>). The weather screen also writes \<open>lastWeather\<close> and
  \<open>lastWeatherDescIndex\<close>, which nothing else reads and which its result does not depend
  on; they are left out.
\<close>

type_synonym renderer = "nat option \<Rightarrow> nat option \<Rightarrow> jsstring option"

text \<open>An entry of \<open>hid.devices()\<close>.\<close>

record hid_info =
  product :: string
  usage :: nat
  usagePage :: nat
  path :: string

text \<open>
  A call of the async function \<open>sendToKeyboard\<close> that is suspended at an \<open>await\<close> of
  its loop (lines 369 to 380): before the write of a line (the \<open>await\<close> of line 371,
  reached on darwin only), with that line and the lines after it, or after a write (the
  \<open>await\<close> of line 376 or 378), with the lines still to come. The suspended call keeps
  its local \<open>screen\<close>. The number in front is not in the program: it numbers the calls
  in the order they got past line 336, so that a written packet can be told from the
  packets of another call.
\<close>

datatype suspended = BeforeWrite packet "packet list" | AfterWrite "packet list"

type_synonym send = "nat \<times> jsstring \<times> suspended"

datatype origin = InitPacket | FramePacket nat

text \<open>
  The module's variables, followed by what the program does to the outside, kept as
  logs: \<open>sends\<close> are the suspended calls of \<open>sendToKeyboard\<close>, \<open>next_send\<close> counts
  the calls that got past line 336, \<open>written\<close> holds the packets accepted by
  \<open>keyboard.write\<close> in order, each with the place it was written from (line 440, or
  line 373 in the call of that number), \<open>completed\<close> the screens whose call reached
  line 383, \<open>triggers\<close> the screens whose data refresh was started.
  \<open>timer\<close> is \<open>timer !== null\<close>.
\<close>

record state =
  screens :: "renderer option list"
  currentScreenIndex :: nat
  screenWidth :: "nat option"
  screenHeight :: "nat option"
  keyboard :: "string option"
  screenBuffer :: "nat list option"
  screenLastUpdate :: "jsstring option"
  timer :: bool
  last_updates :: "nat \<Rightarrow> int"
  sends :: "send list"
  next_send :: nat
  written :: "(origin \<times> packet) list"
  completed :: "jsstring list"
  triggers :: "nat list"

definition init_state :: state where
  "init_state =
     \<lparr> screens = [None, Some (\<lambda>w h. Some []), Some (\<lambda>w h. Some []), Some (\<lambda>w h. Some [])],
       currentScreenIndex = 0,
       screenWidth = Some 0,
       screenHeight = Some 0,
       keyboard = None,
       screenBuffer = None,
       screenLastUpdate = None,
       timer = False,
       last_updates = (\<lambda>k. 0),
       sends = [],
       next_send = 0,
       written = [],
       completed = [],
       triggers = [] \<rparr>"

text \<open>
  What a callback finds outside the program when it runs: the clock, the attached
  devices, the platform, and whether opening the device and the writes made during the
  callback succeed (\<open>init_ok\<close> for the write of line 440, \<open>write_ok\<close> for a write of
  line 373).
\<close>

record env =
  now :: int
  devices :: "hid_info list"
  darwin :: bool
  open_ok :: bool
  init_ok :: bool
  write_ok :: bool

datatype error = UncaughtException

section \<open>sendToKeyboard\<close>

text \<open>
  \<open>keyboard.write(line)\<close>: throws when \<open>keyboard\<close> is \<open>null\<close> or when the device
  refuses the write (\<open>None\<close>); otherwise the packet goes out.
\<close>

definition keyboard_write :: "bool \<Rightarrow> origin \<Rightarrow> packet \<Rightarrow> state \<Rightarrow> state option" where
  "keyboard_write ok who line st =
     (if keyboard st \<noteq> None \<and> ok
      then Some (st\<lparr>written := written st @ [(who, line)]\<rparr>)
      else None)"

text \<open>
  Lines 373 to 379: the write and the \<open>await\<close> after it. An exception of the write
  rejects the promise of the async call: the call is over and nothing after the write
  runs, line 383 included.
\<close>

definition write_line :: "bool \<Rightarrow> nat \<Rightarrow> jsstring \<Rightarrow> packet \<Rightarrow> packet list \<Rightarrow> state \<Rightarrow> state" where
  "write_line ok sid screen line rest st =
     (case keyboard_write ok (FramePacket sid) line st of
        None \<Rightarrow> st
      | Some st' \<Rightarrow> st'\<lparr>sends := sends st' @ [(sid, screen, AfterWrite rest)]\<rparr>)"

text \<open>
  The head of the loop of line 369 with the lines that are left, run up to the next
  \<open>await\<close>; after the last line, line 383 clears \<open>screenBuffer\<close>.
\<close>

fun send_loop :: "bool \<Rightarrow> bool \<Rightarrow> nat \<Rightarrow> jsstring \<Rightarrow> packet list \<Rightarrow> state \<Rightarrow> state" where
  "send_loop dw ok sid screen [] st =
     st\<lparr>screenBuffer := None, completed := completed st @ [screen]\<rparr>"
| "send_loop dw ok sid screen (line # rest) st =
     (if dw
      then st\<lparr>sends := sends st @ [(sid, screen, BeforeWrite line rest)]\<rparr>
      else write_line ok sid screen line rest st)"

text \<open>
  The call itself, up to its first \<open>await\<close>. An exception of \<open>func\<close> rejects the promise
  before anything is assigned. \<open>screenBuffer\<close> is truthy whenever it is an array, the
  empty one too. \<open>screenLastUpdate === screen\<close> is false for \<open>null\<close>.
\<close>

definition sendToKeyboard :: "bool \<Rightarrow> bool \<Rightarrow> renderer \<Rightarrow> state \<Rightarrow> state" where
  "sendToKeyboard dw ok func st =
     (case func (screenWidth st) (screenHeight st) of
        None \<Rightarrow> st
      | Some screen \<Rightarrow>
          if screenBuffer st \<noteq> None \<or> screenLastUpdate st = Some screen then st
          else
            let buf = screen_to_buffer screen (screenWidth st) (screenHeight st);
                lines = split_chunks buf
            in send_loop dw ok (next_send st) screen lines
                 (st\<lparr>screenLastUpdate := Some screen,
                     screenBuffer := Some buf,
                     next_send := next_send st + 1\<rparr>))"

text \<open>The timer of a \<open>wait\<close> fires and the \<open>k\<close>-th suspended call goes on.\<close>

definition resume :: "bool \<Rightarrow> bool \<Rightarrow> nat \<Rightarrow> state \<Rightarrow> state" where
  "resume dw ok k st =
     (if k < length (sends st)
      then
        let st' = st\<lparr>sends := take k (sends st) @ drop (k + 1) (sends st)\<rparr>
        in (case sends st ! k of
              (sid, screen, AfterWrite rest) \<Rightarrow> send_loop dw ok sid screen rest st'
            | (sid, screen, BeforeWrite line rest) \<Rightarrow> write_line ok sid screen line rest st')
      else st)"

section \<open>updateKeyboardScreen\<close>

text \<open>
  One of the three tests of lines 390 to 401. The called data function runs up to its
  first \<open>await\<close> without touching \<open>last_updates\<close> or \<open>screens\<close>; the assignment of
  \<open>now\<close> follows at once.
\<close>

definition due :: "state \<Rightarrow> nat \<Rightarrow> int \<Rightarrow> int \<Rightarrow> int \<Rightarrow> bool" where
  "due st scr update_time background_time t \<longleftrightarrow>
     (currentScreenIndex st = scr \<and> last_updates st scr + update_time \<le> t)
     \<or> last_updates st scr + background_time \<le> t"

definition refresh_if_due :: "nat \<Rightarrow> int \<Rightarrow> int \<Rightarrow> int \<Rightarrow> state \<Rightarrow> state" where
  "refresh_if_due scr update_time background_time t st =
     (if due st scr update_time background_time t
      then st\<lparr>triggers := triggers st @ [scr],
              last_updates := (last_updates st)(scr := t)\<rparr>
      else st)"

definition refresh_stage :: "int \<Rightarrow> state \<Rightarrow> state" where
  "refresh_stage t st =
     refresh_if_due SCREEN_WEATHER WEATHER_UPDATE_TIME WEATHER_BACKGROUND_TIME t
       (refresh_if_due SCREEN_STOCK STOCK_UPDATE_TIME STOCK_BACKGROUND_TIME t
         (refresh_if_due SCREEN_PERF PERF_UPDATE_TIME PERF_BACKGROUND_TIME t st))"

text \<open>Lines 404 to 444: the first matching device is opened and greeted.\<close>

fun find_keyboard :: "hid_info list \<Rightarrow> hid_info option" where
  "find_keyboard [] = None"
| "find_keyboard (d # ds) =
     (if product d = KEYBOARD_NAME \<and> usage d = KEYBOARD_USAGE_ID
         \<and> usagePage d = KEYBOARD_USAGE_PAGE
      then Some d
      else find_keyboard ds)"

definition discover_stage :: "env \<Rightarrow> state \<Rightarrow> error + state" where
  "discover_stage e st =
     (if keyboard st \<noteq> None then Inr st
      else
        (case find_keyboard (devices e) of
           None \<Rightarrow> Inr st
         | Some d \<Rightarrow>
             if \<not> open_ok e then Inl UncaughtException
             else
               (case keyboard_write (init_ok e) InitPacket [0, 1, length (screens st)]
                       (st\<lparr>keyboard := Some (path d)\<rparr>) of
                  None \<Rightarrow> Inl UncaughtException
                | Some st' \<Rightarrow> Inr st')))"

text \<open>
  \<open>screens[i]\<close>: \<open>undefined\<close> outside the array, which is as falsy as the \<open>null\<close> of
  slot 0.
\<close>

definition screens_at :: "state \<Rightarrow> nat \<Rightarrow> renderer option" where
  "screens_at st i = (if i < length (screens st) then screens st ! i else None)"

text \<open>
  Lines 447 to 455. \<open>sendToKeyboard\<close> is async and is not awaited: the call returns a
  promise and never throws, so the \<open>catch\<close> of line 451 is never entered.
\<close>

definition push_stage :: "env \<Rightarrow> state \<Rightarrow> state" where
  "push_stage e st =
     (if keyboard st \<noteq> None
      then (case screens_at st (currentScreenIndex st) of
              None \<Rightarrow> st
            | Some func \<Rightarrow> sendToKeyboard (darwin e) (write_ok e) func st)
      else st)"

definition updateKeyboardScreen :: "env \<Rightarrow> state \<Rightarrow> error + state" where
  "updateKeyboardScreen e st =
     (case discover_stage e (refresh_stage (now e) st) of
        Inl err \<Rightarrow> Inl err
      | Inr st' \<Rightarrow> Inr (push_stage e st'))"

text \<open>
  Lines 458 to 467. \<open>clearInterval\<close> stops the old interval and leaves the variable
  \<open>timer\<close> as it is; after the pass, \<open>timer\<close> holds the new interval.
\<close>

definition triggerUpdate :: "env \<Rightarrow> state \<Rightarrow> error + state" where
  "triggerUpdate e st =
     (case updateKeyboardScreen e st of
        Inl err \<Rightarrow> Inl err
      | Inr st' \<Rightarrow> Inr (st'\<lparr>timer := True\<rparr>))"

section \<open>The handlers of the keyboard's events\<close>

text \<open>\<open>data[i]\<close> of a Buffer: a byte, or \<open>undefined\<close> past its end.\<close>

definition byte_at :: "8 word list \<Rightarrow> nat \<Rightarrow> nat option" where
  "byte_at data i = (if i < length data then Some (unat (data ! i)) else None)"

text \<open>
  The test of line 425. \<open>undefined == 1\<close> is false, and so is \<open>undefined <= n\<close>.
\<close>

definition report_valid :: "state \<Rightarrow> 8 word list \<Rightarrow> bool" where
  "report_valid st data \<longleftrightarrow>
     byte_at data 0 = Some 1
     \<and> (case byte_at data 1 of
          None \<Rightarrow> False
        | Some b \<Rightarrow> int b \<le> int (length (screens st)) - 1)"

definition on_data :: "env \<Rightarrow> 8 word list \<Rightarrow> state \<Rightarrow> error + state" where
  "on_data e data st =
     (if report_valid st data
      then (case byte_at data 1 of
              None \<Rightarrow> Inr st
            | Some b \<Rightarrow>
                triggerUpdate e
                  (st\<lparr>currentScreenIndex := b,
                      screenWidth := byte_at data 2,
                      screenHeight := byte_at data 3\<rparr>))
      else Inr st)"

definition on_error :: "state \<Rightarrow> state" where
  "on_error st = st\<lparr>keyboard := None\<rparr>"

section \<open>The data functions, when they succeed\<close>

text \<open>
  \<open>getPerfs\<close> and \<open>getStocks\<close> end by storing the new screen and \<open>Date.now()\<close>;
  \<open>getWeather\<close> stores the screen only (its assignment of the time stands after the
  \<open>return\<close> of the screen function). A data function that fails logs and changes nothing.
\<close>

definition perfs_done :: "renderer \<Rightarrow> int \<Rightarrow> state \<Rightarrow> state" where
  "perfs_done r t st =
     st\<lparr>screens := (screens st)[SCREEN_PERF := Some r],
        last_updates := (last_updates st)(SCREEN_PERF := t)\<rparr>"

definition stocks_done :: "renderer \<Rightarrow> int \<Rightarrow> state \<Rightarrow> state" where
  "stocks_done r t st =
     st\<lparr>screens := (screens st)[SCREEN_STOCK := Some r],
        last_updates := (last_updates st)(SCREEN_STOCK := t)\<rparr>"

definition weather_done :: "renderer \<Rightarrow> state \<Rightarrow> state" where
  "weather_done r st = st\<lparr>screens := (screens st)[SCREEN_WEATHER := Some r]\<rparr>"

section \<open>The event loop\<close>

text \<open>
  Everything the event loop can run: the call of \<open>triggerUpdate\<close> of line 469, a tick
  of the interval timer, the two handlers of the keyboard, the end of a \<open>wait\<close> of a
  suspended send, and the end of a data function. An uncaught exception ends the
  process.
\<close>

datatype event =
  Start env
| Tick env
| Data "8 word list" env
| KeyboardError
| Resume nat bool bool
| PerfsDone renderer int
| StocksDone renderer int
| WeatherDone renderer

fun step :: "event \<Rightarrow> state \<Rightarrow> error + state" where
  "step (Start e) st = triggerUpdate e st"
| "step (Tick e) st = updateKeyboardScreen e st"
| "step (Data data e) st = on_data e data st"
| "step KeyboardError st = Inr (on_error st)"
| "step (Resume k dw ok) st = Inr (resume dw ok k st)"
| "step (PerfsDone r t) st = Inr (perfs_done r t st)"
| "step (StocksDone r t) st = Inr (stocks_done r t st)"
| "step (WeatherDone r) st = Inr (weather_done r st)"

fun run :: "event list \<Rightarrow> state \<Rightarrow> error + state" where
  "run [] st = Inr st"
| "run (ev # evs) st = (case step ev st of Inl err \<Rightarrow> Inl err | Inr st' \<Rightarrow> run evs st')"

inductive reachable :: "state \<Rightarrow> bool" where
  reachable_init: "reachable init_state"
| reachable_step: "reachable st \<Longrightarrow> step ev st = Inr st' \<Longrightarrow> reachable st'"

section \<open>Notions used to state the properties\<close>

text \<open>The calls of \<open>sendToKeyboard\<close> that the frame packets of a log belong to, in order.\<close>

fun frame_ids :: "(origin \<times> packet) list \<Rightarrow> nat list" where
  "frame_ids [] = []"
| "frame_ids ((InitPacket, p) # l) = frame_ids l"
| "frame_ids ((FramePacket n, p) # l) = n # frame_ids l"

text \<open>
  What holds of the transport variables between two callbacks: at most one call of
  \<open>sendToKeyboard\<close> is suspended, and then \<open>screenBuffer\<close> is set and
  \<open>screenLastUpdate\<close> is the screen of that call; no packet of a later call has been
  written; and when nothing is being sent, \<open>screenLastUpdate\<close> is the screen of the call
  that finished last.
\<close>

definition transport_inv :: "state \<Rightarrow> bool" where
  "transport_inv st \<longleftrightarrow>
     length (sends st) \<le> 1
     \<and> (sends st \<noteq> [] \<longrightarrow> screenBuffer st \<noteq> None)
     \<and> (\<forall>co \<in> set (sends st).
           fst co < next_send st
           \<and> screenLastUpdate st = Some (fst (snd co))
           \<and> (\<forall>n \<in> set (frame_ids (written st)). n \<le> fst co))
     \<and> (\<forall>n \<in> set (frame_ids (written st)). n < next_send st)
     \<and> sorted (frame_ids (written st))
     \<and> (screenBuffer st \<noteq> None \<longrightarrow> screenLastUpdate st \<noteq> None)
     \<and> (completed st \<noteq> [] \<longrightarrow>
           screenBuffer st \<noteq> None \<or> screenLastUpdate st = Some (last (completed st)))"

text \<open>
  What holds of the screen table: it keeps its four slots, slot 0 stays \<open>null\<close>, and
  the selected index is inside the table.
\<close>

definition slots_inv :: "state \<Rightarrow> bool" where
  "slots_inv st \<longleftrightarrow>
     length (screens st) = 4
     \<and> screens st ! 0 = None
     \<and> currentScreenIndex st < length (screens st)"

text \<open>
  A suspended send left to itself: \<open>n\<close> times, the pending \<open>wait\<close> ends and the call
  goes on, with every write accepted.
\<close>

fun drain :: "bool \<Rightarrow> nat \<Rightarrow> state \<Rightarrow> state" where
  "drain dw 0 st = st"
| "drain dw (Suc n) st = drain dw n (resume dw True 0 st)"

text \<open>Resumptions needed to send \<open>n\<close> lines: two per line on darwin, one elsewhere.\<close>

definition waits :: "bool \<Rightarrow> nat \<Rightarrow> nat" where
  "waits dw n = (if dw then 2 * n else n)"

text \<open>
  A concrete course of events, used to instantiate the properties: the keyboard is found
  at start; it asks for screen 1 at 31 by 2, which makes a frame of three packets.
\<close>

definition kyria :: hid_info where
  "kyria = \<lparr> product = ''Kyria Keyboard'', usage = 0x61, usagePage = 0xff60, path = ''kyria'' \<rparr>"

definition quiet_env :: env where
  "quiet_env = \<lparr> now = 5000, devices = [kyria], darwin = False,
                 open_ok = True, init_ok = True, write_ok = True \<rparr>"

definition select_perf :: "8 word list" where
  "select_perf = [1, 1, 31, 2]"

text \<open>What a send leaves alone: the screen table and the selection.\<close>

definition same_selection :: "state \<Rightarrow> state \<Rightarrow> bool" where
  "same_selection st st' \<longleftrightarrow>
     screens st' = screens st \<and> currentScreenIndex st' = currentScreenIndex st
     \<and> screenWidth st' = screenWidth st \<and> screenHeight st' = screenHeight st"

text \<open>
  The refresh rule in the words of the specification: a source is refreshed if its slot
  is selected and \<open>elapsed >= activeInterval\<close>, or if \<open>elapsed >= backgroundInterval\<close>.
\<close>

definition spec_refresh_rule :: "bool \<Rightarrow> int \<Rightarrow> int \<Rightarrow> int \<Rightarrow> bool" where
  "spec_refresh_rule selected elapsed activeInterval backgroundInterval \<longleftrightarrow>
     (selected \<and> elapsed \<ge> activeInterval) \<or> elapsed \<ge> backgroundInterval"

text \<open>
  The states the concrete course of events goes through: \<open>connected\<close> after the start,
  \<open>sending\<close> after the report (the first packet is out, the call waits), \<open>sending2\<close>
  and \<open>sending3\<close> after the second and the third packet, \<open>finished\<close> after the last
  wait; and \<open>stuck\<close>, where the write of the second packet has failed instead.
\<close>

definition connected :: state where
  "connected = init_state\<lparr>keyboard := Some ''kyria'',
     written := [(InitPacket, [0, 1, 4])], timer := True\<rparr>"

definition sending :: state where
  "sending = connected\<lparr>currentScreenIndex := 1, screenWidth := Some 31, screenHeight := Some 2,
     last_updates := (\<lambda>k. 0)(1 := 5000), triggers := [1],
     screenLastUpdate := Some [], screenBuffer := Some (replicate 62 32), next_send := 1,
     written := [(InitPacket, [0, 1, 4]), (FramePacket 0, 0 # 2 # replicate 30 32)],
     sends := [(0, [], AfterWrite [0 # 3 # replicate 30 32, [0, 3, 32, 32]])]\<rparr>"

definition sending2 :: state where
  "sending2 = sending\<lparr>
     written := [(InitPacket, [0, 1, 4]), (FramePacket 0, 0 # 2 # replicate 30 32),
                 (FramePacket 0, 0 # 3 # replicate 30 32)],
     sends := [(0, [], AfterWrite [[0, 3, 32, 32]])]\<rparr>"

definition sending3 :: state where
  "sending3 = sending\<lparr>
     written := [(InitPacket, [0, 1, 4]), (FramePacket 0, 0 # 2 # replicate 30 32),
                 (FramePacket 0, 0 # 3 # replicate 30 32), (FramePacket 0, [0, 3, 32, 32])],
     sends := [(0, [], AfterWrite [])]\<rparr>"

definition finished :: state where
  "finished = sending3\<lparr>sends := [], screenBuffer := None, completed := [[]]\<rparr>"

definition stuck :: state where
  "stuck = sending\<lparr>sends := []\<rparr>"

text \<open>Three screens that ignore the dimensions: the texts \<open>AB\<close>, one space, and none.\<close>

definition text_AB :: renderer where
  "text_AB w h = Some [0x41, 0x42]"

definition text_blank :: renderer where
  "text_blank w h = Some [0x20]"

definition text_empty :: renderer where
  "text_empty w h = Some []"

section \<open>Properties of the two loops\<close>

lemma ceil_step:
  fixes i n :: nat
  assumes "i < n"
  shows "(n - i + 29) div 30 = Suc ((n - (i + 30) + 29) div 30)"
proof (cases "i + 30 \<le> n")
  case True
  then have "n - i + 29 = (n - (i + 30) + 29) + 30" by arith
  then have "(n - i + 29) div 30 = ((n - (i + 30) + 29) + 30) div 30" by (rule arg_cong)
  then show ?thesis by (simp only: div_add_self2)
next
  case False
  with assms have a: "n - (i + 30) = 0" and b: "30 \<le> n - i + 29" and c: "n - i + 29 < 60"
    by arith+
  from b c have "(n - i + 29) div 30 = 1"
    by arith
  with a show ?thesis
    by (simp only:)
qed

lemma chunk_loop_concat:
  "i \<le> length buf \<Longrightarrow> concat (map (drop 2) (chunk_loop i t buf lines)) = concat (map (drop 2) lines) @ drop i buf"
proof (induction i t buf lines rule: chunk_loop.induct)
  case (1 i t buf lines)
  show ?case
  proof (cases "i < length buf")
    case True
    note lt = this
    show ?thesis
    proof (cases "i + 30 \<le> length buf")
      case True
      have "take 30 (drop i buf) @ drop (i + 30) buf = drop i buf"
        by (metis add.commute append_take_drop_id drop_drop)
      with "1" True lt show ?thesis
        by (subst chunk_loop.simps) (simp add: chunkSize_def js_slice_def min_def drop_take)
    next
      case False
      with lt have "chunk_loop (i + 30) 3 buf (lines @ [[0, t] @ drop i buf]) = lines @ [[0, t] @ drop i buf]"
        by (subst chunk_loop.simps) simp
      with False lt show ?thesis
        by (subst chunk_loop.simps) (simp add: chunkSize_def js_slice_def min_def)
    qed
  next
    case False
    with "1.prems" show ?thesis
      by (subst chunk_loop.simps) simp
  qed
qed

lemma slice_as_take:
  "js_slice buf i (min (i + 30) (length buf)) = take 30 (drop i buf)"
  by (simp add: js_slice_def drop_take min_def)

lemma chunk_loop_eq:
  "chunk_loop i t buf lines =
     lines @ map (\<lambda>k. [0, if k = 0 then t else 3] @ take 30 (drop (i + 30 * k) buf))
               [0..<(length buf - i + 29) div 30]"
proof (induction i t buf lines rule: chunk_loop.induct)
  case (1 i t buf lines)
  show ?case
  proof (cases "i < length buf")
    case True
    let ?m = "(length buf - (i + 30) + 29) div 30"
    have m: "(length buf - i + 29) div 30 = Suc ?m"
      using True by (rule ceil_step)
    have "chunk_loop i t buf lines =
            chunk_loop (i + 30) 3 buf (lines @ [[0, t] @ take 30 (drop i buf)])"
      using True by (subst chunk_loop.simps) (simp add: chunkSize_def slice_as_take)
    also have "\<dots> = (lines @ [[0, t] @ take 30 (drop i buf)]) @
        map (\<lambda>k. [0, if k = 0 then 3 else 3] @ take 30 (drop (i + 30 + 30 * k) buf)) [0..<?m]"
      using "1" True by (simp add: chunkSize_def slice_as_take)
    also have "\<dots> = lines @
        map (\<lambda>k. [0, if k = 0 then t else 3] @ take 30 (drop (i + 30 * k) buf)) [0..<Suc ?m]"
      by (simp only: map_upt_Suc) (simp add: add.assoc)
    finally show ?thesis
      by (simp only: m)
  next
    case False
    then show ?thesis
      by (subst chunk_loop.simps) simp
  qed
qed

lemma split_chunks_eq:
  "split_chunks buf =
     map (\<lambda>k. [0, if k = 0 then 2 else 3] @ take 30 (drop (30 * k) buf))
         [0..<(length buf + 29) div 30]"
  by (simp add: split_chunks_def chunk_loop_eq)

lemma ceil_real: "int ((n + 29) div 30) = \<lceil>real n / 30\<rceil>"
proof -
  define q where "q = (n + 29) div 30"
  define r where "r = (n + 29) mod 30"
  have r: "r < 30" by (simp add: r_def)
  have "n + 29 = 30 * q + r"
    by (simp add: q_def r_def)
  then have "real n + 29 = 30 * real q + real r"
    by (metis of_nat_add of_nat_mult of_nat_numeral)
  with r have lo: "real_of_int (int q) - 1 < real n / 30" and hi: "real n / 30 \<le> real_of_int (int q)"
    by simp_all
  have "\<lceil>real n / 30\<rceil> = int q"
    using lo hi by (rule ceiling_unique)
  then show ?thesis by (simp only: q_def)
qed

lemma cell_32: "(if int k \<ge> int (length screen) - 1 then 32 else unat (screen ! k)) = (if k + 1 < length screen then unat (screen ! k) else (32::nat))"
  by auto

lemma fill_buffer_eq:
  "fill_buffer i n screen buf =
     buf @ map (\<lambda>k. if k + 1 < length screen then unat (screen ! k) else 32) [i..<n]"
proof (induction i n screen buf rule: fill_buffer.induct)
  case (1 i n screen buf)
  show ?case
  proof (cases "i < n")
    case True
    have "fill_buffer i n screen buf =
            fill_buffer (i + 1) n screen
              (buf @ [if i + 1 < length screen then unat (screen ! i) else 32])"
      using True by (subst fill_buffer.simps) (simp only: cell_32 if_True)
    also have "\<dots> = (buf @ [if i + 1 < length screen then unat (screen ! i) else 32]) @
        map (\<lambda>k. if k + 1 < length screen then unat (screen ! k) else 32) [i + 1..<n]"
      using "1" True by (simp only: cell_32)
    also have "\<dots> = buf @
        map (\<lambda>k. if k + 1 < length screen then unat (screen ! k) else 32) [i..<n]"
      using True by (simp add: upt_conv_Cons)
    finally show ?thesis .
  next
    case False
    then show ?thesis
      by (subst fill_buffer.simps) simp
  qed
qed

lemma frame_bytes_eq:
  "frame_bytes screen w h =
     map (\<lambda>k. if k + 1 < length screen then unat (screen ! k) else 32) [0..<h * w]"
  by (simp add: frame_bytes_def fill_buffer_eq)

section \<open>What holds between two callbacks\<close>

lemma frame_ids_append:
  "frame_ids (l @ l') = frame_ids l @ frame_ids l'"
  by (induction l rule: frame_ids.induct) simp_all

lemma write_line_inv:
  assumes "sends st = []" "screenBuffer st \<noteq> None" "screenLastUpdate st = Some screen"
    "sid < next_send st" "\<forall>n \<in> set (frame_ids (written st)). n \<le> sid"
    "sorted (frame_ids (written st))"
  shows "transport_inv (write_line ok sid screen line rest st)"
  using assms
  by (auto simp: transport_inv_def write_line_def keyboard_write_def frame_ids_append
      sorted_append)

lemma send_loop_inv:
  assumes "sends st = []" "screenBuffer st \<noteq> None" "screenLastUpdate st = Some screen"
    "sid < next_send st" "\<forall>n \<in> set (frame_ids (written st)). n \<le> sid"
    "sorted (frame_ids (written st))"
  shows "transport_inv (send_loop dw ok sid screen ls st)"
proof (cases ls)
  case Nil
  with assms show ?thesis
    by (auto simp: transport_inv_def)
next
  case (Cons line rest)
  show ?thesis
  proof (cases dw)
    case True
    with Cons assms show ?thesis
      by (auto simp: transport_inv_def)
  next
    case False
    with Cons write_line_inv [OF assms] show ?thesis
      by simp
  qed
qed

lemma sendToKeyboard_inv:
  assumes "transport_inv st"
  shows "transport_inv (sendToKeyboard dw ok func st)"
proof (cases "func (screenWidth st) (screenHeight st)")
  case None
  with assms show ?thesis
    by (simp add: sendToKeyboard_def)
next
  case (Some screen)
  show ?thesis
  proof (cases "screenBuffer st \<noteq> None \<or> screenLastUpdate st = Some screen")
    case True
    with Some assms show ?thesis
      by (simp add: sendToKeyboard_def)
  next
    case False
    let ?st1 = "st\<lparr>screenLastUpdate := Some screen,
                    screenBuffer := Some (screen_to_buffer screen (screenWidth st) (screenHeight st)),
                    next_send := next_send st + 1\<rparr>"
    from False assms have idle: "sends st = []"
      by (auto simp: transport_inv_def)
    have "transport_inv (send_loop dw ok (next_send st) screen
            (split_chunks (screen_to_buffer screen (screenWidth st) (screenHeight st))) ?st1)"
      using assms idle
      by (intro send_loop_inv) (auto simp: transport_inv_def dest: less_imp_le)
    with Some False show ?thesis
      by (simp add: sendToKeyboard_def Let_def)
  qed
qed

lemma resume_inv:
  assumes "transport_inv st"
  shows "transport_inv (resume dw ok k st)"
proof (cases "k < length (sends st)")
  case False
  with assms show ?thesis
    by (simp add: resume_def)
next
  case True
  with assms obtain sid screen pt where one: "sends st = [(sid, screen, pt)]" and k: "k = 0"
    by (cases "sends st") (auto simp: transport_inv_def)
  let ?st' = "st\<lparr>sends := []\<rparr>"
  from assms one have pre: "sends ?st' = []" "screenBuffer ?st' \<noteq> None"
    "screenLastUpdate ?st' = Some screen" "sid < next_send ?st'"
    "\<forall>n \<in> set (frame_ids (written ?st')). n \<le> sid" "sorted (frame_ids (written ?st'))"
    by (auto simp: transport_inv_def)
  show ?thesis
  proof (cases pt)
    case (BeforeWrite line rest)
    with one k write_line_inv [OF pre] show ?thesis
      by (simp add: resume_def)
  next
    case (AfterWrite rest)
    with one k send_loop_inv [OF pre] show ?thesis
      by (simp add: resume_def)
  qed
qed

lemma refresh_if_due_inv:
  "transport_inv (refresh_if_due scr u b t st) = transport_inv st"
  by (simp add: refresh_if_due_def transport_inv_def)

lemma refresh_stage_inv:
  "transport_inv (refresh_stage t st) = transport_inv st"
  by (simp add: refresh_stage_def refresh_if_due_inv)

lemma connect_inv:
  "transport_inv (st\<lparr>keyboard := k, written := written st @ [(InitPacket, p)]\<rparr>)
     = transport_inv st"
  by (simp add: transport_inv_def frame_ids_append)

lemma discover_stage_cases:
  assumes "discover_stage e st = Inr st'"
  shows "st' = st \<or> (\<exists>k. keyboard st = None \<and> st' = st\<lparr>keyboard := Some k,
           written := written st @ [(InitPacket, [0, 1, length (screens st)])]\<rparr>)"
  using assms
  by (auto simp: discover_stage_def keyboard_write_def split: if_splits option.splits)

lemma discover_stage_inv:
  assumes "transport_inv st" "discover_stage e st = Inr st'"
  shows "transport_inv st'"
  using discover_stage_cases [OF assms(2)] assms(1)
  by (auto simp: connect_inv)

lemma push_stage_inv:
  assumes "transport_inv st"
  shows "transport_inv (push_stage e st)"
  using assms by (simp add: push_stage_def sendToKeyboard_inv split: option.splits)

lemma updateKeyboardScreen_inv:
  assumes "transport_inv st" "updateKeyboardScreen e st = Inr st'"
  shows "transport_inv st'"
proof -
  from assms(2) obtain st1 where d: "discover_stage e (refresh_stage (now e) st) = Inr st1"
    and st': "st' = push_stage e st1"
    by (auto simp: updateKeyboardScreen_def split: sum.splits)
  from assms(1) have "transport_inv (refresh_stage (now e) st)"
    by (simp add: refresh_stage_inv)
  then have "transport_inv st1"
    using d by (rule discover_stage_inv)
  then show ?thesis
    unfolding st' by (rule push_stage_inv)
qed

lemma timer_update_inv:
  "transport_inv (st\<lparr>timer := b\<rparr>) = transport_inv st"
  by (simp add: transport_inv_def)

lemma triggerUpdate_inv:
  assumes "transport_inv st" "triggerUpdate e st = Inr st'"
  shows "transport_inv st'"
proof -
  from assms(2) obtain st1 where u: "updateKeyboardScreen e st = Inr st1"
    and st': "st' = st1\<lparr>timer := True\<rparr>"
    by (auto simp: triggerUpdate_def split: sum.splits)
  from assms(1) u have "transport_inv st1"
    by (rule updateKeyboardScreen_inv)
  then show ?thesis
    by (simp add: st' timer_update_inv)
qed

lemma selection_update_inv:
  "transport_inv (st\<lparr>currentScreenIndex := i, screenWidth := w, screenHeight := h\<rparr>)
     = transport_inv st"
  by (simp add: transport_inv_def)

lemma on_data_inv:
  assumes "transport_inv st" "on_data e data st = Inr st'"
  shows "transport_inv st'"
proof (cases "report_valid st data")
  case False
  with assms show ?thesis
    by (simp add: on_data_def)
next
  case True
  show ?thesis
  proof (cases "byte_at data 1")
    case None
    with True assms show ?thesis
      by (simp add: on_data_def)
  next
    case (Some b)
    with True assms(2) have "triggerUpdate e (st\<lparr>currentScreenIndex := b,
        screenWidth := byte_at data 2, screenHeight := byte_at data 3\<rparr>) = Inr st'"
      by (simp add: on_data_def)
    moreover from assms(1) have "transport_inv (st\<lparr>currentScreenIndex := b,
        screenWidth := byte_at data 2, screenHeight := byte_at data 3\<rparr>)"
      by (simp add: selection_update_inv)
    ultimately show ?thesis
      by (rule triggerUpdate_inv [rotated])
  qed
qed

lemma step_transport_inv:
  assumes "transport_inv st" "step ev st = Inr st'"
  shows "transport_inv st'"
proof (cases ev)
  case (Start e)
  with assms show ?thesis by (auto intro: triggerUpdate_inv)
next
  case (Tick e)
  with assms show ?thesis by (auto intro: updateKeyboardScreen_inv)
next
  case (Data data e)
  with assms show ?thesis by (auto intro: on_data_inv)
next
  case KeyboardError
  with assms have "st' = st\<lparr>keyboard := None\<rparr>" by (simp add: on_error_def)
  with assms(1) show ?thesis by (simp add: transport_inv_def)
next
  case (Resume k dw ok)
  with assms show ?thesis by (auto intro: resume_inv)
next
  case (PerfsDone r t)
  with assms have "st' = perfs_done r t st" by simp
  with assms(1) show ?thesis by (simp add: perfs_done_def transport_inv_def)
next
  case (StocksDone r t)
  with assms have "st' = stocks_done r t st" by simp
  with assms(1) show ?thesis by (simp add: stocks_done_def transport_inv_def)
next
  case (WeatherDone r)
  with assms have "st' = weather_done r st" by simp
  with assms(1) show ?thesis by (simp add: weather_done_def transport_inv_def)
qed

lemma reachable_transport_inv:
  "reachable st \<Longrightarrow> transport_inv st"
proof (induction rule: reachable.induct)
  case reachable_init
  show ?case by (simp add: init_state_def transport_inv_def)
next
  case (reachable_step st ev st')
  then show ?case by (auto intro: step_transport_inv)
qed

lemma write_line_selection:
  "same_selection st (write_line ok sid screen line rest st)"
  by (simp add: same_selection_def write_line_def keyboard_write_def)

lemma send_loop_selection:
  "same_selection st (send_loop dw ok sid screen ls st)"
  using write_line_selection
  by (cases ls) (simp_all add: same_selection_def)

lemma sendToKeyboard_selection:
  "same_selection st (sendToKeyboard dw ok func st)"
proof -
  have "same_selection (st\<lparr>screenLastUpdate := u, screenBuffer := b, next_send := n\<rparr>)
          (send_loop dw ok sid screen ls (st\<lparr>screenLastUpdate := u, screenBuffer := b, next_send := n\<rparr>))"
    for u b n sid screen ls
    by (rule send_loop_selection)
  then show ?thesis
    by (simp add: sendToKeyboard_def same_selection_def Let_def split: option.splits)
qed

lemma resume_selection:
  "same_selection st (resume dw ok k st)"
proof -
  have a: "same_selection (st\<lparr>sends := q\<rparr>) (send_loop dw ok sid screen ls (st\<lparr>sends := q\<rparr>))"
    for q sid screen ls
    by (rule send_loop_selection)
  have b: "same_selection (st\<lparr>sends := q\<rparr>) (write_line ok sid screen l ls (st\<lparr>sends := q\<rparr>))"
    for q sid screen l ls
    by (rule write_line_selection)
  from a b show ?thesis
    by (simp add: resume_def same_selection_def Let_def split: prod.splits suspended.splits)
qed

lemma refresh_stage_selection:
  "same_selection st (refresh_stage t st)"
  by (simp add: same_selection_def refresh_stage_def refresh_if_due_def)

lemma discover_stage_selection:
  "discover_stage e st = Inr st' \<Longrightarrow> same_selection st st'"
  by (drule discover_stage_cases) (auto simp: same_selection_def)

lemma push_stage_selection:
  "same_selection st (push_stage e st)"
  using sendToKeyboard_selection
  by (simp add: push_stage_def same_selection_def split: option.splits)

lemma same_selection_trans:
  "same_selection a b \<Longrightarrow> same_selection b c \<Longrightarrow> same_selection a c"
  by (simp add: same_selection_def)

lemma updateKeyboardScreen_selection:
  assumes "updateKeyboardScreen e st = Inr st'"
  shows "same_selection st st'"
proof -
  from assms obtain st1 where d: "discover_stage e (refresh_stage (now e) st) = Inr st1"
    and st': "st' = push_stage e st1"
    by (auto simp: updateKeyboardScreen_def split: sum.splits)
  have "same_selection st (refresh_stage (now e) st)"
    by (rule refresh_stage_selection)
  moreover have "same_selection (refresh_stage (now e) st) st1"
    using d by (rule discover_stage_selection)
  moreover have "same_selection st1 st'"
    unfolding st' by (rule push_stage_selection)
  ultimately show ?thesis
    by (blast intro: same_selection_trans)
qed

lemma triggerUpdate_selection:
  assumes "triggerUpdate e st = Inr st'"
  shows "same_selection st st'"
proof -
  from assms obtain st1 where u: "updateKeyboardScreen e st = Inr st1"
    and st': "st' = st1\<lparr>timer := True\<rparr>"
    by (auto simp: triggerUpdate_def split: sum.splits)
  from u have "same_selection st st1"
    by (rule updateKeyboardScreen_selection)
  then show ?thesis
    by (simp add: st' same_selection_def)
qed

lemma same_selection_slots:
  "same_selection st st' \<Longrightarrow> slots_inv st \<Longrightarrow> slots_inv st'"
  by (simp add: same_selection_def slots_inv_def)

lemma on_data_slots:
  assumes "slots_inv st" "on_data e data st = Inr st'"
  shows "slots_inv st'"
proof (cases "report_valid st data")
  case False
  with assms show ?thesis
    by (simp add: on_data_def)
next
  case True
  then obtain b where b: "byte_at data 1 = Some b" and le: "int b \<le> int (length (screens st)) - 1"
    by (auto simp: report_valid_def split: option.splits)
  let ?st1 = "st\<lparr>currentScreenIndex := b,
        screenWidth := byte_at data 2, screenHeight := byte_at data 3\<rparr>"
  from True b assms(2) have "triggerUpdate e ?st1 = Inr st'"
    by (simp add: on_data_def)
  then have "same_selection ?st1 st'"
    by (rule triggerUpdate_selection)
  moreover from assms(1) le have "slots_inv ?st1"
    by (simp add: slots_inv_def)
  ultimately show ?thesis
    by (rule same_selection_slots)
qed

lemma step_slots_inv:
  assumes "slots_inv st" "step ev st = Inr st'"
  shows "slots_inv st'"
proof (cases ev)
  case (Start e)
  with assms show ?thesis
    by (auto dest: triggerUpdate_selection intro: same_selection_slots)
next
  case (Tick e)
  with assms show ?thesis
    by (auto dest: updateKeyboardScreen_selection intro: same_selection_slots)
next
  case (Data data e)
  with assms show ?thesis by (auto intro: on_data_slots)
next
  case KeyboardError
  with assms show ?thesis by (auto simp: on_error_def slots_inv_def)
next
  case (Resume k dw ok)
  with assms resume_selection [of st dw ok k] show ?thesis
    by (auto intro: same_selection_slots)
next
  case (PerfsDone r t)
  with assms show ?thesis by (auto simp: perfs_done_def slots_inv_def SCREEN_PERF_def)
next
  case (StocksDone r t)
  with assms show ?thesis by (auto simp: stocks_done_def slots_inv_def SCREEN_STOCK_def)
next
  case (WeatherDone r)
  with assms show ?thesis by (auto simp: weather_done_def slots_inv_def SCREEN_WEATHER_def)
qed

lemma reachable_slots_inv:
  "reachable st \<Longrightarrow> slots_inv st"
proof (induction rule: reachable.induct)
  case reachable_init
  show ?case by (simp add: init_state_def slots_inv_def)
next
  case (reachable_step st ev st')
  then show ?case by (auto intro: step_slots_inv)
qed

lemma frame_bytes_empty: "frame_bytes [] w h = replicate (h * w) 32"
  by (simp add: frame_bytes_eq map_replicate_const)

lemma three_packets:
  "split_chunks (replicate 62 32) = [0 # 2 # replicate 30 32, 0 # 3 # replicate 30 32, [0, 3, 32, 32]]"
  by code_simp

lemma select_perf_bytes:
  "byte_at select_perf 0 = Some 1" "byte_at select_perf (Suc 0) = Some 1"
  "byte_at select_perf 2 = Some 31" "byte_at select_perf 3 = Some 2"
  by (simp_all add: byte_at_def select_perf_def)

lemma find_kyria: "find_keyboard (devices quiet_env) = Some kyria"
  by (simp add: quiet_env_def kyria_def KEYBOARD_NAME_def KEYBOARD_USAGE_ID_def KEYBOARD_USAGE_PAGE_def)


lemmas interval_defs =
  SCREEN_PERF_def SCREEN_STOCK_def SCREEN_WEATHER_def
  PERF_UPDATE_TIME_def PERF_BACKGROUND_TIME_def KEYBOARD_UPDATE_TIME_def
  STOCK_UPDATE_TIME_def STOCK_BACKGROUND_TIME_def WEATHER_UPDATE_TIME_def
  WEATHER_BACKGROUND_TIME_def

lemma start_step:
  "step (Start quiet_env) init_state = Inr connected"
  by (simp add: triggerUpdate_def updateKeyboardScreen_def refresh_stage_def refresh_if_due_def
      due_def discover_stage_def find_kyria keyboard_write_def push_stage_def screens_at_def
      interval_defs connected_def)
     (simp add: init_state_def quiet_env_def kyria_def)

lemma data_step:
  "step (Data select_perf quiet_env) connected = Inr sending"
  by (simp add: on_data_def report_valid_def select_perf_bytes
      triggerUpdate_def updateKeyboardScreen_def refresh_stage_def refresh_if_due_def
      due_def discover_stage_def push_stage_def screens_at_def
      sendToKeyboard_def screen_to_buffer_def frame_bytes_empty three_packets
      write_line_def keyboard_write_def interval_defs sending_def
      connected_def init_state_def quiet_env_def fun_upd_def)

lemma failed_write_step:
  "step (Resume 0 False False) sending = Inr stuck"
  by (simp add: resume_def sending_def write_line_def keyboard_write_def stuck_def)

lemma tick_when_stuck:
  "step (Tick quiet_env) stuck = Inr stuck"
  by (simp add: updateKeyboardScreen_def refresh_stage_def refresh_if_due_def
      due_def discover_stage_def push_stage_def screens_at_def
      sendToKeyboard_def interval_defs
      stuck_def sending_def connected_def init_state_def quiet_env_def)


section \<open>The frame\<close>

text \<open>
  C2. Whatever the rendered text, the width and the height, the buffer built from the
  text has exactly \<open>width * height\<close> elements; when \<open>width * height\<close> is 0 it is empty.
  This is the buffer \<open>sendToKeyboard\<close> builds whenever both dimensions are numbers.
\<close>

theorem C2_frame_length:
  "length (frame_bytes screen w h) = w * h
   \<and> (w * h = 0 \<longrightarrow> frame_bytes screen w h = [])
   \<and> screen_to_buffer screen (Some w) (Some h) = frame_bytes screen w h"
  by (simp add: frame_bytes_eq screen_to_buffer_def mult.commute)

theorem C2_frame_length_witness:
  "(0::nat) * 5 = 0 \<and> frame_bytes [0x41, 0x42] 0 5 = []"
  using C2_frame_length [of "[0x41, 0x42]" 0 5] by simp


text \<open>
  C3. The specification expects the frame of the text \<open>AB\<close> at width 10 and height 2 to
  be \<open>A\<close>, \<open>B\<close> and 18 spaces. The loop compares \<open>i\<close> with \<open>screen.length - 1\<close>, so the
  last character of the text is replaced by a space as well: the frame is \<open>A\<close> and 19
  spaces.
\<close>

theorem C3_frame_of_AB:
  "frame_bytes [0x41, 0x42] 10 2 = 65 # replicate 19 32
   \<and> frame_bytes [0x41, 0x42] 10 2 \<noteq> [65, 66] @ replicate 18 32"
  by code_simp


section \<open>A send from its first line to its last wait\<close>

lemma resume_only:
  "resume dw ok 0 (st\<lparr>sends := [co]\<rparr>) =
     (case co of
        (sid, screen, AfterWrite rest) \<Rightarrow> send_loop dw ok sid screen rest (st\<lparr>sends := []\<rparr>)
      | (sid, screen, BeforeWrite line rest) \<Rightarrow> write_line ok sid screen line rest (st\<lparr>sends := []\<rparr>))"
  by (simp add: resume_def Let_def)

lemma write_line_accepted:
  "keyboard st \<noteq> None \<Longrightarrow>
   write_line True sid screen line rest (st\<lparr>sends := []\<rparr>) =
     st\<lparr>written := written st @ [(FramePacket sid, line)],
        sends := [(sid, screen, AfterWrite rest)]\<rparr>"
  by (simp add: write_line_def keyboard_write_def)

lemma drain_send_loop:
  assumes "keyboard st \<noteq> None"
  shows "drain dw (waits dw (length ls)) (send_loop dw True sid screen ls (st\<lparr>sends := []\<rparr>)) =
     st\<lparr>written := written st @ map (Pair (FramePacket sid)) ls, sends := [],
        screenBuffer := None, completed := completed st @ [screen]\<rparr>"
  using assms
proof (induction ls arbitrary: st)
  case Nil
  then show ?case
    by (simp add: waits_def)
next
  case (Cons line rest)
  let ?st1 = "st\<lparr>written := written st @ [(FramePacket sid, line)]\<rparr>"
  note w = write_line_accepted [OF Cons.prems, of sid screen line rest]
  have ih: "drain dw (waits dw (length rest)) (send_loop dw True sid screen rest (?st1\<lparr>sends := []\<rparr>)) =
     ?st1\<lparr>written := written ?st1 @ map (Pair (FramePacket sid)) rest, sends := [],
        screenBuffer := None, completed := completed ?st1 @ [screen]\<rparr>"
    using Cons.prems by (intro Cons.IH) simp
  have after: "resume dw True 0 (?st1\<lparr>sends := [(sid, screen, AfterWrite rest)]\<rparr>) =
      send_loop dw True sid screen rest (?st1\<lparr>sends := []\<rparr>)"
    by (simp add: resume_only)
  have written: "write_line True sid screen line rest (st\<lparr>sends := []\<rparr>) =
      ?st1\<lparr>sends := [(sid, screen, AfterWrite rest)]\<rparr>"
    using w by simp
  show ?case
  proof (cases dw)
    case False
    then have "drain dw (waits dw (length (line # rest)))
          (send_loop dw True sid screen (line # rest) (st\<lparr>sends := []\<rparr>))
       = drain dw (waits dw (length rest))
          (resume dw True 0 (?st1\<lparr>sends := [(sid, screen, AfterWrite rest)]\<rparr>))"
      by (simp add: waits_def written)
    with after ih show ?thesis
      by simp
  next
    case True
    have before: "resume dw True 0 (st\<lparr>sends := [(sid, screen, BeforeWrite line rest)]\<rparr>) =
        ?st1\<lparr>sends := [(sid, screen, AfterWrite rest)]\<rparr>"
      using written by (simp add: resume_only)
    from True have "drain dw (waits dw (length (line # rest)))
          (send_loop dw True sid screen (line # rest) (st\<lparr>sends := []\<rparr>))
       = drain dw (waits dw (length rest))
          (resume dw True 0 (resume dw True 0 (st\<lparr>sends := [(sid, screen, BeforeWrite line rest)]\<rparr>)))"
      by (simp add: waits_def)
    with before after ih show ?thesis
      by simp
  qed
qed

lemma send_runs_to_the_end:
  assumes "sends st = []" "screenBuffer st = None" "keyboard st \<noteq> None"
    "func (screenWidth st) (screenHeight st) = Some screen" "screenLastUpdate st \<noteq> Some screen"
  shows "drain dw (waits dw (length (split_chunks (screen_to_buffer screen (screenWidth st) (screenHeight st)))))
           (sendToKeyboard dw True func st) =
     st\<lparr>screenLastUpdate := Some screen, next_send := next_send st + 1,
        written := written st @ map (Pair (FramePacket (next_send st)))
           (split_chunks (screen_to_buffer screen (screenWidth st) (screenHeight st))),
        sends := [], screenBuffer := None, completed := completed st @ [screen]\<rparr>"
proof -
  let ?buf = "screen_to_buffer screen (screenWidth st) (screenHeight st)"
  let ?st1 = "st\<lparr>screenLastUpdate := Some screen, screenBuffer := Some ?buf,
                  next_send := next_send st + 1\<rparr>"
  have "sendToKeyboard dw True func st =
      send_loop dw True (next_send st) screen (split_chunks ?buf) ?st1"
    using assms by (simp add: sendToKeyboard_def Let_def)
  moreover have "?st1 = ?st1\<lparr>sends := []\<rparr>"
    using assms(1) by simp
  then have "send_loop dw True (next_send st) screen (split_chunks ?buf) ?st1 =
      send_loop dw True (next_send st) screen (split_chunks ?buf) (?st1\<lparr>sends := []\<rparr>)"
    by (rule arg_cong)
  moreover have "drain dw (waits dw (length (split_chunks ?buf)))
      (send_loop dw True (next_send st) screen (split_chunks ?buf) (?st1\<lparr>sends := []\<rparr>)) =
     ?st1\<lparr>written := written ?st1 @ map (Pair (FramePacket (next_send st))) (split_chunks ?buf),
        sends := [], screenBuffer := None, completed := completed ?st1 @ [screen]\<rparr>"
    using assms by (intro drain_send_loop) simp
  ultimately show ?thesis
    by simp
qed

section \<open>One send at a time\<close>

lemma busy_push_returns:
  "screenBuffer st \<noteq> None \<Longrightarrow> sendToKeyboard dw ok func st = st"
  by (simp add: sendToKeyboard_def split: option.splits)

lemma reachable_connected: "reachable connected"
  using reachable_step [OF reachable_init start_step] .

lemma reachable_sending: "reachable sending"
  using reachable_step [OF reachable_connected data_step] .

lemma reachable_stuck: "reachable stuck"
  using reachable_step [OF reachable_sending failed_write_step] .

lemma second_packet_step:
  "step (Resume 0 False True) sending = Inr sending2"
  by (simp add: resume_def sending_def sending2_def connected_def init_state_def
      write_line_def keyboard_write_def)

lemma third_packet_step:
  "step (Resume 0 False True) sending2 = Inr sending3"
  by (simp add: resume_def sending_def sending2_def sending3_def connected_def init_state_def
      write_line_def keyboard_write_def)

lemma last_wait_step:
  "step (Resume 0 False True) sending3 = Inr finished"
  by (simp add: resume_def sending_def sending3_def finished_def connected_def init_state_def)

lemma reachable_sending3: "reachable sending3"
  using reachable_step [OF reachable_step [OF reachable_sending second_packet_step] third_packet_step] .

lemma reachable_finished: "reachable finished"
  using reachable_step [OF reachable_sending3 last_wait_step] .

text \<open>
  C6. At most one call of \<open>sendToKeyboard\<close> is in flight at any time: while one is
  suspended, another call returns at once and leaves everything as it was, the log of
  written packets included. So the packets of two calls never interleave: in the log,
  the frame packets are ordered by call, and between two packets of one call there are
  only packets of that call.
\<close>

theorem C6_single_flight:
  assumes "reachable st"
  shows "length (sends st) \<le> 1
    \<and> (sends st \<noteq> [] \<longrightarrow> sendToKeyboard dw ok func st = st)
    \<and> sorted (frame_ids (written st))
    \<and> (\<forall>i j k. i < j \<and> j < k \<and> k < length (frame_ids (written st))
          \<and> frame_ids (written st) ! i = frame_ids (written st) ! k
        \<longrightarrow> frame_ids (written st) ! j = frame_ids (written st) ! i)"
proof -
  from assms have inv: "transport_inv st"
    by (rule reachable_transport_inv)
  then have one: "length (sends st) \<le> 1" and busy: "sends st \<noteq> [] \<longrightarrow> screenBuffer st \<noteq> None"
    and srt: "sorted (frame_ids (written st))"
    by (simp_all add: transport_inv_def)
  have between: "frame_ids (written st) ! j = frame_ids (written st) ! i"
    if "i < j" "j < k" "k < length (frame_ids (written st))"
      "frame_ids (written st) ! i = frame_ids (written st) ! k" for i j k
  proof -
    from srt that have "frame_ids (written st) ! i \<le> frame_ids (written st) ! j"
      by (intro sorted_nth_mono) simp_all
    moreover from srt that have "frame_ids (written st) ! j \<le> frame_ids (written st) ! k"
      by (intro sorted_nth_mono) simp_all
    ultimately show ?thesis
      using that(4) by simp
  qed
  from one busy srt between show ?thesis
    by (auto simp: busy_push_returns)
qed

theorem C6_single_flight_witness:
  "reachable sending \<and> sends sending \<noteq> []
   \<and> sendToKeyboard False True (\<lambda>w h. Some [0x41]) sending = sending
   \<and> frame_ids (written sending3) = [0, 0, 0]
   \<and> frame_ids (written sending3) ! 1 = frame_ids (written sending3) ! 0"
proof -
  have a: "sends sending \<noteq> []"
    by (simp add: sending_def)
  have ids: "frame_ids (written sending3) = [0, 0, 0]"
    by (simp add: sending3_def)
  note push = C6_single_flight [OF reachable_sending, of False True "\<lambda>w h. Some [0x41]",
      THEN conjunct2, THEN conjunct1, rule_format, OF a]
  have "(0::nat) < 1 \<and> (1::nat) < 2 \<and> 2 < length (frame_ids (written sending3))
      \<and> frame_ids (written sending3) ! 0 = frame_ids (written sending3) ! 2"
    by (simp add: ids)
  note mid = C6_single_flight [OF reachable_sending3, of False True "\<lambda>w h. Some [0x41]",
      THEN conjunct2, THEN conjunct2, THEN conjunct2, rule_format, OF this]
  from reachable_sending a push ids mid show ?thesis
    by (intro conjI)
qed

section \<open>Screen 0\<close>

lemma discover_stage_transport:
  assumes "discover_stage e st = Inr st'"
  shows "screenBuffer st' = screenBuffer st \<and> screenLastUpdate st' = screenLastUpdate st
    \<and> sends st' = sends st \<and> next_send st' = next_send st \<and> completed st' = completed st
    \<and> frame_ids (written st') = frame_ids (written st)"
  using discover_stage_cases [OF assms]
  by (auto simp: frame_ids_append)

lemma refresh_stage_transport:
  "screenBuffer (refresh_stage t st) = screenBuffer st
   \<and> screenLastUpdate (refresh_stage t st) = screenLastUpdate st
   \<and> sends (refresh_stage t st) = sends st \<and> next_send (refresh_stage t st) = next_send st
   \<and> completed (refresh_stage t st) = completed st
   \<and> written (refresh_stage t st) = written st"
  by (simp add: refresh_stage_def refresh_if_due_def)

text \<open>
  C10. On a tick with screen 0 selected (as in the initial state), no frame is pushed:
  slot 0 of the table is \<open>null\<close>, so the push stage does nothing, and the tick as a
  whole leaves \<open>screenBuffer\<close>, \<open>screenLastUpdate\<close>, the suspended sends and the frame
  packets of the log as they were.
\<close>

theorem C10_screen_0_pushes_nothing:
  assumes "reachable st" "currentScreenIndex st = 0"
  shows "push_stage e st = st
    \<and> updateKeyboardScreen e st = discover_stage e (refresh_stage (now e) st)
    \<and> (\<forall>st'. updateKeyboardScreen e st = Inr st' \<longrightarrow>
          screenBuffer st' = screenBuffer st \<and> screenLastUpdate st' = screenLastUpdate st
          \<and> sends st' = sends st \<and> frame_ids (written st') = frame_ids (written st))"
proof -
  from assms(1) have slots: "slots_inv st"
    by (rule reachable_slots_inv)
  have none: "push_stage e s = s" if "same_selection st s" for s
    using that slots assms(2)
    by (simp add: push_stage_def screens_at_def same_selection_def slots_inv_def)
  have here: "push_stage e st = st"
    by (rule none) (simp add: same_selection_def)
  have tick: "updateKeyboardScreen e st = discover_stage e (refresh_stage (now e) st)"
  proof (cases "discover_stage e (refresh_stage (now e) st)")
    case (Inl err)
    then show ?thesis
      by (simp add: updateKeyboardScreen_def)
  next
    case (Inr s)
    then have "same_selection (refresh_stage (now e) st) s"
      by (rule discover_stage_selection)
    with refresh_stage_selection [of st "now e"] have "same_selection st s"
      by (rule same_selection_trans)
    then have "push_stage e s = s"
      by (rule none)
    with Inr show ?thesis
      by (simp add: updateKeyboardScreen_def)
  qed
  have "screenBuffer st' = screenBuffer st \<and> screenLastUpdate st' = screenLastUpdate st
          \<and> sends st' = sends st \<and> frame_ids (written st') = frame_ids (written st)"
    if "updateKeyboardScreen e st = Inr st'" for st'
    using that discover_stage_transport [of e "refresh_stage (now e) st" st']
      refresh_stage_transport [of "now e" st]
    by (simp add: tick)
  with here tick show ?thesis
    by blast
qed

theorem C10_screen_0_pushes_nothing_witness:
  "reachable connected \<and> currentScreenIndex connected = 0
   \<and> push_stage quiet_env connected = connected
   \<and> updateKeyboardScreen quiet_env connected = Inr connected"
proof -
  have z: "currentScreenIndex connected = 0"
    by (simp add: connected_def init_state_def)
  note c = C10_screen_0_pushes_nothing [OF reachable_connected z, of quiet_env]
  have "discover_stage quiet_env (refresh_stage (now quiet_env) connected) = Inr connected"
    by (simp add: refresh_stage_def refresh_if_due_def due_def discover_stage_def interval_defs
        connected_def init_state_def quiet_env_def)
  with c have "updateKeyboardScreen quiet_env connected = Inr connected"
    by simp
  with reachable_connected z c show ?thesis
    by simp
qed

section \<open>Inbound reports\<close>

lemma int_le_pred: "(int b \<le> int n - 1) = (b + 1 \<le> n)"
  by arith

lemma report_valid_iff:
  "report_valid st data \<longleftrightarrow>
     (\<exists>b0 b1 rest. data = b0 # b1 # rest \<and> b0 = 1 \<and> unat b1 + 1 \<le> length (screens st))"
proof (cases data)
  case Nil
  then show ?thesis
    by (simp add: report_valid_def byte_at_def)
next
  case (Cons b0 tl)
  note outer = this
  show ?thesis
  proof (cases tl)
    case Nil
    with outer show ?thesis
      by (simp add: report_valid_def byte_at_def)
  next
    case (Cons b1 rest)
    have one: "unat b0 = 1 \<longleftrightarrow> b0 = 1"
      using word_unat_eq_iff [of b0 1] by simp
    have "report_valid st data \<longleftrightarrow> unat b0 = 1 \<and> unat b1 + 1 \<le> length (screens st)"
      unfolding report_valid_def byte_at_def int_le_pred using outer Cons by simp
    with one outer Cons show ?thesis
      by simp
  qed
qed

text \<open>
  C7. A report is accepted exactly when its first byte is 1 and its second byte, the
  screen index, is at most the number of slots minus one (3, with the four slots of the
  table). An accepted report sets the index, the width and the height from its second,
  third and fourth byte and runs a scheduler pass at once, which leaves the three as
  set. Any other report, and so any report whose index is above 3, changes nothing.
\<close>

theorem C7_inbound_report:
  assumes "reachable st"
  shows "length (screens st) = 4
    \<and> (report_valid st data \<longleftrightarrow> (\<exists>b0 b1 rest. data = b0 # b1 # rest \<and> b0 = 1 \<and> unat b1 \<le> 3))
    \<and> (\<forall>b0 b1 rest. data = b0 # b1 # rest \<and> b0 = 1 \<and> unat b1 \<le> 3 \<longrightarrow>
          on_data e data st =
            triggerUpdate e (st\<lparr>currentScreenIndex := unat b1,
              screenWidth := byte_at data 2, screenHeight := byte_at data 3\<rparr>)
          \<and> (\<forall>st'. on_data e data st = Inr st' \<longrightarrow>
                currentScreenIndex st' = unat b1
                \<and> screenWidth st' = byte_at data 2 \<and> screenHeight st' = byte_at data 3))
    \<and> (\<not> report_valid st data \<longrightarrow> on_data e data st = Inr st)
    \<and> (\<forall>b0 b1 rest. data = b0 # b1 # rest \<and> unat b1 > 3 \<longrightarrow> on_data e data st = Inr st)"
proof -
  from assms have four: "length (screens st) = 4"
    using reachable_slots_inv by (simp add: slots_inv_def)
  have valid: "report_valid st data \<longleftrightarrow>
      (\<exists>b0 b1 rest. data = b0 # b1 # rest \<and> b0 = 1 \<and> unat b1 \<le> 3)"
    by (simp add: report_valid_iff four)
  have accepted: "on_data e data st =
            triggerUpdate e (st\<lparr>currentScreenIndex := unat b1,
              screenWidth := byte_at data 2, screenHeight := byte_at data 3\<rparr>)
          \<and> (\<forall>st'. on_data e data st = Inr st' \<longrightarrow>
                currentScreenIndex st' = unat b1
                \<and> screenWidth st' = byte_at data 2 \<and> screenHeight st' = byte_at data 3)"
    if d: "data = b0 # b1 # rest \<and> b0 = 1 \<and> unat b1 \<le> 3" for b0 b1 rest
  proof -
    let ?st1 = "st\<lparr>currentScreenIndex := unat b1,
              screenWidth := byte_at data 2, screenHeight := byte_at data 3\<rparr>"
    from d valid have v: "report_valid st data"
      by blast
    from d have b: "byte_at data 1 = Some (unat b1)"
      by (simp add: byte_at_def)
    from v b have run: "on_data e data st = triggerUpdate e ?st1"
      by (simp add: on_data_def)
    have "currentScreenIndex st' = unat b1
                \<and> screenWidth st' = byte_at data 2 \<and> screenHeight st' = byte_at data 3"
      if "on_data e data st = Inr st'" for st'
      using that triggerUpdate_selection [of e ?st1 st']
      by (simp add: run same_selection_def)
    with run show ?thesis
      by blast
  qed
  have rejected: "on_data e data st = Inr st" if "\<not> report_valid st data"
    using that by (simp add: on_data_def)
  have above: "on_data e data st = Inr st" if "data = b0 # b1 # rest \<and> unat b1 > 3" for b0 b1 rest
  proof -
    from that valid have "\<not> report_valid st data"
      by auto
    then show ?thesis
      by (rule rejected)
  qed
  from four valid accepted rejected above show ?thesis
    by blast
qed

theorem C7_inbound_report_witness:
  "reachable connected
   \<and> on_data quiet_env [1, 1, 31, 2] connected = Inr sending
   \<and> currentScreenIndex sending = 1 \<and> screenWidth sending = Some 31
   \<and> screenHeight sending = Some 2
   \<and> \<not> report_valid connected [2, 1, 31, 2]
   \<and> on_data quiet_env [2, 1, 31, 2] connected = Inr connected
   \<and> on_data quiet_env [1, 4, 31, 2] connected = Inr connected"
proof -
  note c = C7_inbound_report [OF reachable_connected]
  have run: "on_data quiet_env [1, 1, 31, 2] connected = Inr sending"
    using data_step by (simp add: select_perf_def)
  have "[1, 1, 31, 2] = (1::8 word) # 1 # [31, 2] \<and> (1::8 word) = 1 \<and> unat (1::8 word) \<le> 3"
    by simp
  note acc = c [of "[1, 1, 31, 2]" quiet_env, THEN conjunct2, THEN conjunct2, THEN conjunct1,
      rule_format, OF this, THEN conjunct2, rule_format, OF run]
  have nv: "\<not> report_valid connected [2, 1, 31, 2]"
    using c [of "[2, 1, 31, 2]" quiet_env, THEN conjunct2, THEN conjunct1] by simp
  note rej = c [of "[2, 1, 31, 2]" quiet_env, THEN conjunct2, THEN conjunct2, THEN conjunct2,
      THEN conjunct1, rule_format, OF nv]
  have "[1, 4, 31, 2] = (1::8 word) # 4 # [31, 2] \<and> unat (4::8 word) > 3"
    by simp
  note abv = c [of "[1, 4, 31, 2]" quiet_env, THEN conjunct2, THEN conjunct2, THEN conjunct2,
      THEN conjunct2, rule_format, OF this]
  from acc have sel: "currentScreenIndex sending = 1 \<and> screenWidth sending = Some 31
      \<and> screenHeight sending = Some 2"
    by (simp add: byte_at_def)
  from reachable_connected run sel nv rej abv show ?thesis
    by blast
qed

section \<open>Refresh decisions\<close>

lemma due_spec:
  "due st scr u b t \<longleftrightarrow>
     spec_refresh_rule (currentScreenIndex st = scr) (t - last_updates st scr) u b"
  by (auto simp: due_def spec_refresh_rule_def)

lemma refresh_if_due_other:
  "scr' \<noteq> scr \<Longrightarrow>
   due (refresh_if_due scr u b t st) scr' u' b' t' = due st scr' u' b' t'"
  by (simp add: refresh_if_due_def due_def)

lemma refresh_if_due_triggers:
  "triggers (refresh_if_due scr u b t st) =
     triggers st @ (if due st scr u b t then [scr] else [])"
  by (simp add: refresh_if_due_def)

lemma refresh_stage_triggers:
  "triggers (refresh_stage t st) = triggers st
     @ (if due st SCREEN_PERF PERF_UPDATE_TIME PERF_BACKGROUND_TIME t then [SCREEN_PERF] else [])
     @ (if due st SCREEN_STOCK STOCK_UPDATE_TIME STOCK_BACKGROUND_TIME t then [SCREEN_STOCK] else [])
     @ (if due st SCREEN_WEATHER WEATHER_UPDATE_TIME WEATHER_BACKGROUND_TIME t
        then [SCREEN_WEATHER] else [])"
proof -
  have ne: "SCREEN_STOCK \<noteq> SCREEN_PERF" "SCREEN_WEATHER \<noteq> SCREEN_PERF"
    "SCREEN_WEATHER \<noteq> SCREEN_STOCK"
    by (simp_all add: SCREEN_PERF_def SCREEN_STOCK_def SCREEN_WEATHER_def)
  show ?thesis
    unfolding refresh_stage_def refresh_if_due_triggers
    by (simp only: refresh_if_due_other [OF ne(1)] refresh_if_due_other [OF ne(2)]
        refresh_if_due_other [OF ne(3)] append_assoc)
qed

text \<open>
  C8. On a tick, the data source of a slot is refreshed exactly when the slot is the
  selected one and \<open>elapsed >= activeInterval\<close>, or \<open>elapsed >= backgroundInterval\<close>,
  with \<open>elapsed = now - lastRefresh\<close> as it stands when the tick begins; this for each of
  the three slots with its own two intervals. With an active interval of 1000 and a
  background interval of 30000, the rule refreshes a selected slot at \<open>elapsed = 1001\<close>
  and no unselected slot whose \<open>elapsed\<close> is below 30000; and with the intervals of the
  program and screen 1 selected, the tick at \<open>elapsed = 1001\<close> refreshes screen 1 and
  not screen 2 while the \<open>elapsed\<close> of screen 2 is below 30000.
\<close>

theorem C8_refresh_rule:
  "triggers (refresh_stage t st) = triggers st
     @ (if spec_refresh_rule (currentScreenIndex st = SCREEN_PERF)
            (t - last_updates st SCREEN_PERF) PERF_UPDATE_TIME PERF_BACKGROUND_TIME
        then [SCREEN_PERF] else [])
     @ (if spec_refresh_rule (currentScreenIndex st = SCREEN_STOCK)
            (t - last_updates st SCREEN_STOCK) STOCK_UPDATE_TIME STOCK_BACKGROUND_TIME
        then [SCREEN_STOCK] else [])
     @ (if spec_refresh_rule (currentScreenIndex st = SCREEN_WEATHER)
            (t - last_updates st SCREEN_WEATHER) WEATHER_UPDATE_TIME WEATHER_BACKGROUND_TIME
        then [SCREEN_WEATHER] else [])
   \<and> (due st scr u b t \<longleftrightarrow>
        (currentScreenIndex st = scr \<and> t - last_updates st scr \<ge> u)
        \<or> t - last_updates st scr \<ge> b)
   \<and> (currentScreenIndex st = scr \<and> t - last_updates st scr = 1001
        \<longrightarrow> due st scr 1000 30000 t)
   \<and> (currentScreenIndex st \<noteq> scr \<and> t - last_updates st scr < 30000
        \<longrightarrow> \<not> due st scr 1000 30000 t)
   \<and> (currentScreenIndex st = 1 \<and> t - last_updates st 1 = 1001
        \<and> t - last_updates st 2 < 30000
        \<longrightarrow> SCREEN_PERF \<in> set (drop (length (triggers st)) (triggers (refresh_stage t st)))
          \<and> SCREEN_STOCK \<notin> set (drop (length (triggers st)) (triggers (refresh_stage t st))))"
proof (intro conjI impI)
  show "triggers (refresh_stage t st) = triggers st
     @ (if spec_refresh_rule (currentScreenIndex st = SCREEN_PERF)
            (t - last_updates st SCREEN_PERF) PERF_UPDATE_TIME PERF_BACKGROUND_TIME
        then [SCREEN_PERF] else [])
     @ (if spec_refresh_rule (currentScreenIndex st = SCREEN_STOCK)
            (t - last_updates st SCREEN_STOCK) STOCK_UPDATE_TIME STOCK_BACKGROUND_TIME
        then [SCREEN_STOCK] else [])
     @ (if spec_refresh_rule (currentScreenIndex st = SCREEN_WEATHER)
            (t - last_updates st SCREEN_WEATHER) WEATHER_UPDATE_TIME WEATHER_BACKGROUND_TIME
        then [SCREEN_WEATHER] else [])"
    by (simp only: refresh_stage_triggers due_spec)
next
  show "due st scr u b t \<longleftrightarrow>
        (currentScreenIndex st = scr \<and> t - last_updates st scr \<ge> u)
        \<or> t - last_updates st scr \<ge> b"
    by (auto simp: due_def)
next
  assume "currentScreenIndex st = scr \<and> t - last_updates st scr = 1001"
  then show "due st scr 1000 30000 t"
    by (simp add: due_def)
next
  assume "currentScreenIndex st \<noteq> scr \<and> t - last_updates st scr < 30000"
  then show "\<not> due st scr 1000 30000 t"
    by (simp add: due_def)
next
  assume a: "currentScreenIndex st = 1 \<and> t - last_updates st 1 = 1001
        \<and> t - last_updates st 2 < 30000"
  then have "due st SCREEN_PERF PERF_UPDATE_TIME PERF_BACKGROUND_TIME t"
    by (simp add: due_def interval_defs)
  then show "SCREEN_PERF \<in> set (drop (length (triggers st)) (triggers (refresh_stage t st)))"
    by (simp add: refresh_stage_triggers)
next
  assume a: "currentScreenIndex st = 1 \<and> t - last_updates st 1 = 1001
        \<and> t - last_updates st 2 < 30000"
  then have "\<not> due st SCREEN_STOCK STOCK_UPDATE_TIME STOCK_BACKGROUND_TIME t"
    by (simp add: due_def interval_defs)
  then show "SCREEN_STOCK \<notin> set (drop (length (triggers st)) (triggers (refresh_stage t st)))"
    by (simp add: refresh_stage_triggers) (simp add: interval_defs)
qed

theorem C8_refresh_rule_witness:
  "currentScreenIndex sending = 1 \<and> 6001 - last_updates sending 1 = 1001
   \<and> 6001 - last_updates sending 2 < 30000 \<and> currentScreenIndex sending \<noteq> 2
   \<and> due sending 1 1000 30000 6001 \<and> \<not> due sending 2 1000 30000 6001
   \<and> triggers (refresh_stage 6001 sending) = [1, 1]"
proof -
  have a: "currentScreenIndex sending = 1 \<and> 6001 - last_updates sending 1 = 1001"
    by (simp add: sending_def)
  have b: "currentScreenIndex sending \<noteq> 2 \<and> 6001 - last_updates sending 2 < 30000"
    by (simp add: sending_def)
  note c = C8_refresh_rule [of 6001 sending]
  note sel = c [of 1, THEN conjunct2, THEN conjunct2, THEN conjunct1, rule_format, OF a]
  note uns = c [of 2, THEN conjunct2, THEN conjunct2, THEN conjunct2, THEN conjunct1,
      rule_format, OF b]
  from a b have ab: "currentScreenIndex sending = 1 \<and> 6001 - last_updates sending 1 = 1001
      \<and> 6001 - last_updates sending 2 < 30000"
    by simp
  note both = c [of 1, THEN conjunct2, THEN conjunct2, THEN conjunct2, THEN conjunct2,
      rule_format, OF ab]
  have w: "last_updates sending 3 = 0" "triggers sending = [1]"
    by (simp_all add: sending_def connected_def init_state_def)
  have tr: "triggers (refresh_stage 6001 sending) = [1, 1]"
    using both a b w
    by (simp add: c [of 1, THEN conjunct1] spec_refresh_rule_def interval_defs)
  from a b sel uns tr show ?thesis
    by simp
qed

lemma refresh_if_due_last:
  "last_updates (refresh_if_due scr u b t st) scr' =
     (if scr' = scr \<and> due st scr u b t then t else last_updates st scr')"
  by (simp add: refresh_if_due_def)

lemma refresh_stage_last:
  "last_updates (refresh_stage t st) scr =
     (if scr = SCREEN_PERF \<and> due st SCREEN_PERF PERF_UPDATE_TIME PERF_BACKGROUND_TIME t
        \<or> scr = SCREEN_STOCK \<and> due st SCREEN_STOCK STOCK_UPDATE_TIME STOCK_BACKGROUND_TIME t
        \<or> scr = SCREEN_WEATHER
            \<and> due st SCREEN_WEATHER WEATHER_UPDATE_TIME WEATHER_BACKGROUND_TIME t
      then t else last_updates st scr)"
proof -
  have ne: "SCREEN_STOCK \<noteq> SCREEN_PERF" "SCREEN_WEATHER \<noteq> SCREEN_PERF"
    "SCREEN_WEATHER \<noteq> SCREEN_STOCK"
    by (simp_all add: SCREEN_PERF_def SCREEN_STOCK_def SCREEN_WEATHER_def)
  show ?thesis
    unfolding refresh_stage_def refresh_if_due_last
    by (simp only: refresh_if_due_other [OF ne(1)] refresh_if_due_other [OF ne(2)]
        refresh_if_due_other [OF ne(3)]) (use ne in auto)
qed

lemma not_due_again:
  assumes "last_updates st2 scr = t" "t2 - t < u" "u \<le> b"
  shows "\<not> due st2 scr u b t2"
  using assms by (simp add: due_def)

lemma not_due_again_unselected:
  assumes "last_updates st2 scr = t" "t2 - t < b" "currentScreenIndex st2 \<noteq> scr"
  shows "\<not> due st2 scr u b t2"
  using assms by (simp add: due_def)

text \<open>
  C9. When a tick decides to refresh a slot, it sets the slot's last-refresh time to the
  time of the tick there and then, whatever becomes of the data function it has started:
  the screen table is as before, so the time can be fresh while the screen is stale. As
  long as nothing else sets that time (a data function that fails sets nothing), a later
  tick does not refresh the slot again before the slot's active interval has passed since
  the decision, nor, when the slot is not selected, before its background interval has.
\<close>

theorem C9_time_set_at_decision:
  assumes "(scr, u, b) \<in> {(SCREEN_PERF, PERF_UPDATE_TIME, PERF_BACKGROUND_TIME),
             (SCREEN_STOCK, STOCK_UPDATE_TIME, STOCK_BACKGROUND_TIME),
             (SCREEN_WEATHER, WEATHER_UPDATE_TIME, WEATHER_BACKGROUND_TIME)}"
    and "due st scr u b t"
  shows "scr \<in> set (drop (length (triggers st)) (triggers (refresh_stage t st)))
    \<and> last_updates (refresh_stage t st) scr = t
    \<and> screens (refresh_stage t st) = screens st
    \<and> (\<forall>st2 t2. last_updates st2 scr = last_updates (refresh_stage t st) scr
          \<and> (t2 - t < u \<or> currentScreenIndex st2 \<noteq> scr \<and> t2 - t < b)
        \<longrightarrow> scr \<notin> set (drop (length (triggers st2)) (triggers (refresh_stage t2 st2)))
          \<and> last_updates (refresh_stage t2 st2) scr = t)"
proof -
  from assms have started: "scr \<in> set (drop (length (triggers st)) (triggers (refresh_stage t st)))"
    by (auto simp: refresh_stage_triggers)
  from assms have set: "last_updates (refresh_stage t st) scr = t"
    by (auto simp: refresh_stage_last)
  have stale: "screens (refresh_stage t st) = screens st"
    using refresh_stage_selection [of st t] by (simp add: same_selection_def)
  from assms(1) have ub: "u \<le> b"
    by (auto simp: interval_defs)
  have later: "scr \<notin> set (drop (length (triggers st2)) (triggers (refresh_stage t2 st2)))
          \<and> last_updates (refresh_stage t2 st2) scr = t"
    if h: "last_updates st2 scr = last_updates (refresh_stage t st) scr
          \<and> (t2 - t < u \<or> currentScreenIndex st2 \<noteq> scr \<and> t2 - t < b)" for st2 t2
  proof -
    from h set have l: "last_updates st2 scr = t"
      by simp
    from h have "\<not> due st2 scr u b t2"
      using not_due_again [OF l _ ub] not_due_again_unselected [OF l]
      by blast
    with assms(1) l show ?thesis
      by (auto simp: refresh_stage_triggers refresh_stage_last interval_defs)
  qed
  from started set stale later show ?thesis
    by blast
qed

theorem C9_time_set_at_decision_witness:
  "due connected SCREEN_PERF PERF_UPDATE_TIME PERF_BACKGROUND_TIME 12000
   \<and> last_updates (refresh_stage 12000 connected) SCREEN_PERF = 12000
   \<and> screens (refresh_stage 12000 connected) = screens connected
   \<and> 12999 - 12000 < PERF_UPDATE_TIME
   \<and> last_updates (refresh_stage 12999 (refresh_stage 12000 connected)) SCREEN_PERF = 12000"
proof -
  have m: "(SCREEN_PERF, PERF_UPDATE_TIME, PERF_BACKGROUND_TIME)
      \<in> {(SCREEN_PERF, PERF_UPDATE_TIME, PERF_BACKGROUND_TIME),
             (SCREEN_STOCK, STOCK_UPDATE_TIME, STOCK_BACKGROUND_TIME),
             (SCREEN_WEATHER, WEATHER_UPDATE_TIME, WEATHER_BACKGROUND_TIME)}"
    by simp
  have d: "due connected SCREEN_PERF PERF_UPDATE_TIME PERF_BACKGROUND_TIME 12000"
    by (simp add: due_def connected_def init_state_def interval_defs)
  note c = C9_time_set_at_decision [OF m d]
  have soon: "(12999::int) - 12000 < PERF_UPDATE_TIME"
    by (simp add: interval_defs)
  then have "last_updates (refresh_stage 12000 connected) SCREEN_PERF
        = last_updates (refresh_stage 12000 connected) SCREEN_PERF
      \<and> (12999 - 12000 < PERF_UPDATE_TIME
          \<or> currentScreenIndex (refresh_stage 12000 connected) \<noteq> SCREEN_PERF
            \<and> 12999 - 12000 < PERF_BACKGROUND_TIME)"
    by simp
  note again = c [THEN conjunct2, THEN conjunct2, THEN conjunct2, rule_format, OF this]
  from d c soon again show ?thesis
    by simp
qed

section \<open>Change detection\<close>

lemma write_line_last_update:
  "screenLastUpdate (write_line ok sid screen line rest st) = screenLastUpdate st"
  by (simp add: write_line_def keyboard_write_def)

lemma send_loop_last_update:
  "screenLastUpdate (send_loop dw ok sid screen ls st) = screenLastUpdate st"
  by (cases ls) (simp_all add: write_line_last_update)

lemma write_line_next_send:
  "next_send (write_line ok sid screen line rest st) = next_send st"
  by (simp add: write_line_def keyboard_write_def)

lemma send_loop_next_send:
  "next_send (send_loop dw ok sid screen ls st) = next_send st"
  by (cases ls) (simp_all add: write_line_next_send)

lemma push_not_suppressed:
  assumes "func (screenWidth st) (screenHeight st) = Some screen"
    "screenBuffer st = None" "screenLastUpdate st \<noteq> Some screen"
  shows "screenLastUpdate (sendToKeyboard dw ok func st) = Some screen
    \<and> next_send (sendToKeyboard dw ok func st) = next_send st + 1"
  using assms
  by (simp add: sendToKeyboard_def Let_def send_loop_last_update send_loop_next_send)

lemma push_same_again:
  assumes "func (screenWidth st) (screenHeight st) = Some screen"
    "screenLastUpdate st = Some screen"
  shows "sendToKeyboard dw ok func st = st"
  using assms by (simp add: sendToKeyboard_def)

lemma push_twice:
  "sendToKeyboard dw' ok' func (sendToKeyboard dw ok func st) = sendToKeyboard dw ok func st"
proof (cases "func (screenWidth st) (screenHeight st)")
  case None
  then show ?thesis
    by (simp add: sendToKeyboard_def)
next
  case (Some screen)
  let ?st' = "sendToKeyboard dw ok func st"
  have sel: "same_selection st ?st'"
    by (rule sendToKeyboard_selection)
  with Some have f: "func (screenWidth ?st') (screenHeight ?st') = Some screen"
    by (simp add: same_selection_def)
  show ?thesis
  proof (cases "screenBuffer st \<noteq> None \<or> screenLastUpdate st = Some screen")
    case True
    with Some have "sendToKeyboard d k func st = st" for d k
      by (simp add: sendToKeyboard_def)
    then show ?thesis
      by simp
  next
    case False
    with Some have "screenLastUpdate ?st' = Some screen"
      using push_not_suppressed [of func st screen dw ok] by simp
    with f show ?thesis
      by (rule push_same_again)
  qed
qed

text \<open>
  C5, with the rendered text where the claim has the bytes: the test of line 334
  compares texts. Pushing the same rendered text twice in a row results in exactly one
  write sequence: a second push of the same text right after the first changes nothing,
  and a send that runs to its end writes its packets once, after which a push of the
  same text changes nothing. If the rendered text equals the last successfully pushed
  text, the one whose send was the last to run to its end, the push returns at once,
  changing nothing and writing nothing. The first-ever push, made when no text has been
  recorded yet, is never suppressed: it records its text and starts a send.
\<close>

theorem C5_same_text_sent_once:
  assumes "reachable st" "func (screenWidth st) (screenHeight st) = Some screen"
  shows "sendToKeyboard dw' ok' func (sendToKeyboard dw ok func st) = sendToKeyboard dw ok func st
    \<and> (completed st \<noteq> [] \<and> last (completed st) = screen
         \<longrightarrow> sendToKeyboard dw ok func st = st)
    \<and> (screenLastUpdate st = None
         \<longrightarrow> screenLastUpdate (sendToKeyboard dw ok func st) = Some screen
           \<and> next_send (sendToKeyboard dw ok func st) = next_send st + 1)
    \<and> (screenBuffer st = None \<and> keyboard st \<noteq> None \<and> screenLastUpdate st \<noteq> Some screen
         \<longrightarrow> (let lines = split_chunks (screen_to_buffer screen (screenWidth st) (screenHeight st));
                  st' = drain dw (waits dw (length lines)) (sendToKeyboard dw True func st)
              in written st' = written st @ map (Pair (FramePacket (next_send st))) lines
                \<and> completed st' = completed st @ [screen]
                \<and> sendToKeyboard dw' ok' func st' = st'))"
proof -
  from assms(1) have inv: "transport_inv st"
    by (rule reachable_transport_inv)
  have last: "sendToKeyboard dw ok func st = st"
    if "completed st \<noteq> [] \<and> last (completed st) = screen"
  proof (cases "screenBuffer st")
    case (Some buf)
    then show ?thesis
      by (simp add: busy_push_returns)
  next
    case None
    with inv that have "screenLastUpdate st = Some screen"
      by (simp add: transport_inv_def)
    with assms(2) show ?thesis
      by (rule push_same_again)
  qed
  have first: "screenLastUpdate (sendToKeyboard dw ok func st) = Some screen
           \<and> next_send (sendToKeyboard dw ok func st) = next_send st + 1"
    if "screenLastUpdate st = None"
  proof -
    from inv that have "screenBuffer st = None"
      by (auto simp: transport_inv_def)
    with assms(2) that show ?thesis
      by (intro push_not_suppressed) simp_all
  qed
  have once: "let lines = split_chunks (screen_to_buffer screen (screenWidth st) (screenHeight st));
                  st' = drain dw (waits dw (length lines)) (sendToKeyboard dw True func st)
              in written st' = written st @ map (Pair (FramePacket (next_send st))) lines
                \<and> completed st' = completed st @ [screen]
                \<and> sendToKeyboard dw' ok' func st' = st'"
    if h: "screenBuffer st = None \<and> keyboard st \<noteq> None \<and> screenLastUpdate st \<noteq> Some screen"
  proof -
    from inv h have idle: "sends st = []"
      by (auto simp: transport_inv_def)
    note e = send_runs_to_the_end [of st func screen dw, OF idle _ _ assms(2)]
    from h e show ?thesis
      by (simp add: Let_def push_same_again assms(2))
  qed
  from last first once push_twice show ?thesis
    by blast
qed

lemma finished_fields:
  "screenWidth finished = Some 31" "screenHeight finished = Some 2"
  "screenBuffer finished = None" "screenLastUpdate finished = Some []"
  "keyboard finished = Some ''kyria''" "completed finished = [[]]" "sends finished = []"
  "next_send finished = 1"
  "written finished = [(InitPacket, [0, 1, 4]), (FramePacket 0, 0 # 2 # replicate 30 32),
                 (FramePacket 0, 0 # 3 # replicate 30 32), (FramePacket 0, [0, 3, 32, 32])]"
  by (simp_all add: finished_def sending3_def sending_def connected_def init_state_def)

lemma frame_AB: "frame_bytes [0x41, 0x42] 31 2 = 65 # replicate 61 32"
  by code_simp

lemma frame_blank: "frame_bytes [0x20] 31 2 = replicate 62 32"
  by code_simp

lemma packets_AB:
  "split_chunks (65 # replicate 61 32) =
     [0 # 2 # 65 # replicate 29 32, 0 # 3 # replicate 30 32, [0, 3, 32, 32]]"
  by code_simp

theorem C5_same_text_sent_once_witness:
  "reachable finished
   \<and> completed finished \<noteq> [] \<and> last (completed finished) = []
   \<and> sendToKeyboard False True text_empty finished = finished
   \<and> screenLastUpdate connected = None
   \<and> screenLastUpdate (sendToKeyboard False True text_empty connected) = Some []
   \<and> screenBuffer finished = None \<and> keyboard finished \<noteq> None
   \<and> screenLastUpdate finished \<noteq> Some [0x41, 0x42]
   \<and> written (drain False 3 (sendToKeyboard False True text_AB finished)) =
        written finished @ [(FramePacket 1, 0 # 2 # 65 # replicate 29 32),
          (FramePacket 1, 0 # 3 # replicate 30 32), (FramePacket 1, [0, 3, 32, 32])]
   \<and> sendToKeyboard False True text_AB (drain False 3 (sendToKeyboard False True text_AB finished))
        = drain False 3 (sendToKeyboard False True text_AB finished)"
proof -
  have e: "text_empty (screenWidth finished) (screenHeight finished) = Some []"
    "text_empty (screenWidth connected) (screenHeight connected) = Some []"
    by (simp_all add: text_empty_def)
  have ab: "text_AB (screenWidth finished) (screenHeight finished) = Some [0x41, 0x42]"
    by (simp add: text_AB_def)
  have l: "completed finished \<noteq> [] \<and> last (completed finished) = []"
    by (simp add: finished_fields)
  note same = C5_same_text_sent_once [where st = finished and func = text_empty and screen = "[]"
      and dw = False and ok = True and dw' = False and ok' = True, OF reachable_finished e(1),
      THEN conjunct2, THEN conjunct1, rule_format, OF l]
  have n: "screenLastUpdate connected = None"
    by (simp add: connected_def init_state_def)
  note first = C5_same_text_sent_once [where st = connected and func = text_empty and screen = "[]"
      and dw = False and ok = True and dw' = False and ok' = True, OF reachable_connected e(2),
      THEN conjunct2, THEN conjunct2, THEN conjunct1, rule_format, OF n, THEN conjunct1]
  have i: "screenBuffer finished = None \<and> keyboard finished \<noteq> None
      \<and> screenLastUpdate finished \<noteq> Some [0x41, 0x42]"
    by (simp add: finished_fields)
  note once = C5_same_text_sent_once [where st = finished and func = text_AB and screen = "[0x41, 0x42]"
      and dw = False and ok = True and dw' = False and ok' = True, OF reachable_finished ab,
      THEN conjunct2, THEN conjunct2, THEN conjunct2, rule_format, OF i]
  have w: "waits False (length (split_chunks
      (screen_to_buffer [0x41, 0x42] (screenWidth finished) (screenHeight finished)))) = 3"
    by (simp add: finished_fields screen_to_buffer_def frame_AB packets_AB waits_def)
  from once have o: "written (drain False 3 (sendToKeyboard False True text_AB finished)) =
        written finished @ [(FramePacket 1, 0 # 2 # 65 # replicate 29 32),
          (FramePacket 1, 0 # 3 # replicate 30 32), (FramePacket 1, [0, 3, 32, 32])]
   \<and> sendToKeyboard False True text_AB (drain False 3 (sendToKeyboard False True text_AB finished))
        = drain False 3 (sendToKeyboard False True text_AB finished)"
    unfolding Let_def w
    by (simp add: finished_fields screen_to_buffer_def frame_AB packets_AB)
  from reachable_finished l same n first i o show ?thesis
    by (intro conjI) simp_all
qed

text \<open>
  C5, as written, speaks of the pushed bytes. The send of the empty text at 31 by 2 has
  run to its end in \<open>finished\<close>, its frame being 62 spaces. The text of one space makes
  the same 62 bytes, but it is another text: the push is not suppressed, and the first
  packet of the same frame is written again.
\<close>

theorem C5_same_bytes_sent_again:
  "completed finished = [[]] \<and> screenBuffer finished = None \<and> sends finished = []
   \<and> text_blank (screenWidth finished) (screenHeight finished) = Some [0x20]
   \<and> screen_to_buffer [0x20] (screenWidth finished) (screenHeight finished)
       = screen_to_buffer [] (screenWidth finished) (screenHeight finished)
   \<and> written (sendToKeyboard False True text_blank finished)
       = written finished @ [(FramePacket 1, 0 # 2 # replicate 30 32)]
   \<and> sendToKeyboard False True text_blank finished \<noteq> finished"
proof -
  have b: "screen_to_buffer [0x20] (screenWidth finished) (screenHeight finished)
       = screen_to_buffer [] (screenWidth finished) (screenHeight finished)"
    by (simp add: finished_fields screen_to_buffer_def frame_blank frame_bytes_empty)
  have w: "written (sendToKeyboard False True text_blank finished)
       = written finished @ [(FramePacket 1, 0 # 2 # replicate 30 32)]"
    by (simp add: sendToKeyboard_def text_blank_def finished_fields screen_to_buffer_def
        frame_blank three_packets write_line_def keyboard_write_def)
  then have "written (sendToKeyboard False True text_blank finished) \<noteq> written finished"
    by simp
  then have d: "sendToKeyboard False True text_blank finished \<noteq> finished"
    by auto
  from b w d show ?thesis
    by (simp add: finished_fields text_blank_def)
qed

section \<open>A write that fails\<close>

text \<open>
  C4. The specification expects a failed write to end the send, clear the in-flight
  flag, reach the scheduler, which drops the device, and leave the next push of the same
  screen unsuppressed. In the program, with a frame of three packets whose second write
  fails: the third packet is indeed not written, but \<open>screenBuffer\<close> stays set (line 383
  is not reached), \<open>keyboard\<close> stays as it was (the rejected promise of the call, which
  is not awaited, never enters the \<open>catch\<close> of line 451), and \<open>screenLastUpdate\<close> was
  already set at line 340; the next tick pushes nothing, and neither does a push of any
  other screen.
\<close>

theorem C4_failed_write_blocks_sends:
  "run [Start quiet_env, Data select_perf quiet_env, Resume 0 False False] init_state = Inr stuck
   \<and> written stuck = [(InitPacket, [0, 1, 4]), (FramePacket 0, 0 # 2 # replicate 30 32)]
   \<and> sends stuck = [] \<and> completed stuck = []
   \<and> screenBuffer stuck = Some (replicate 62 32)
   \<and> keyboard stuck = Some ''kyria''
   \<and> screenLastUpdate stuck = Some []
   \<and> run [Tick quiet_env] stuck = Inr stuck
   \<and> sendToKeyboard False True text_empty stuck = stuck
   \<and> sendToKeyboard False True text_AB stuck = stuck"
proof -
  have r: "run [Start quiet_env, Data select_perf quiet_env, Resume 0 False False] init_state
      = Inr stuck"
    using start_step data_step failed_write_step by simp
  have t: "run [Tick quiet_env] stuck = Inr stuck"
    using tick_when_stuck by simp
  have f: "written stuck = [(InitPacket, [0, 1, 4]), (FramePacket 0, 0 # 2 # replicate 30 32)]"
    "sends stuck = []" "completed stuck = []" "screenBuffer stuck = Some (replicate 62 32)"
    "keyboard stuck = Some ''kyria''" "screenLastUpdate stuck = Some []"
    by (simp_all add: stuck_def sending_def connected_def init_state_def)
  from f(4) have p: "sendToKeyboard False True func stuck = stuck" for func
    by (simp add: busy_push_returns)
  from r t f p show ?thesis
    by simp
qed

theorem C4_failed_write_blocks_sends_witness:
  "screenBuffer stuck \<noteq> None \<and> sendToKeyboard False True text_AB stuck = stuck
   \<and> keyboard stuck \<noteq> None"
  using C4_failed_write_blocks_sends by simp

section \<open>The packets\<close>

text \<open>
  C1. A payload of length \<open>L\<close> is split into exactly \<open>ceil(L / 30)\<close> packets; each
  packet is the two header bytes 0 and the type, followed by at most 30 bytes of the
  payload; the type is 2 in the first packet and 3 in the others; the payloads of the
  packets, put one after the other, are the payload that was split. And these are the
  packets the send emits: a send that starts with nothing in flight and whose writes are
  all accepted has, after its last wait, added exactly these packets to the log, in
  order.
\<close>

theorem C1_chunked_packets:
  "int (length (split_chunks buf)) = \<lceil>real (length buf) / 30\<rceil>
   \<and> (\<forall>k < length (split_chunks buf).
         \<exists>payload. split_chunks buf ! k = [0, if k = 0 then 2 else 3] @ payload
           \<and> length payload \<le> 30)
   \<and> concat (map (drop 2) (split_chunks buf)) = buf
   \<and> (reachable st \<and> screenBuffer st = None \<and> keyboard st \<noteq> None
        \<and> func (screenWidth st) (screenHeight st) = Some screen
        \<and> screenLastUpdate st \<noteq> Some screen
        \<and> buf = screen_to_buffer screen (screenWidth st) (screenHeight st)
      \<longrightarrow> written (drain dw (waits dw (length (split_chunks buf)))
                    (sendToKeyboard dw True func st))
            = written st @ map (Pair (FramePacket (next_send st))) (split_chunks buf))"
proof (intro conjI allI impI)
  show "int (length (split_chunks buf)) = \<lceil>real (length buf) / 30\<rceil>"
    by (simp add: split_chunks_eq ceil_real)
next
  fix k
  assume "k < length (split_chunks buf)"
  then have "split_chunks buf ! k = [0, if k = 0 then 2 else 3] @ take 30 (drop (30 * k) buf)"
    by (simp add: split_chunks_eq)
  then show "\<exists>payload. split_chunks buf ! k = [0, if k = 0 then 2 else 3] @ payload
           \<and> length payload \<le> 30"
    by simp
next
  show "concat (map (drop 2) (split_chunks buf)) = buf"
    using chunk_loop_concat [of 0 buf 2 "[]"] by (simp add: split_chunks_def)
next
  assume h: "reachable st \<and> screenBuffer st = None \<and> keyboard st \<noteq> None
        \<and> func (screenWidth st) (screenHeight st) = Some screen
        \<and> screenLastUpdate st \<noteq> Some screen
        \<and> buf = screen_to_buffer screen (screenWidth st) (screenHeight st)"
  then have "transport_inv st"
    by (simp add: reachable_transport_inv)
  with h have idle: "sends st = []"
    by (auto simp: transport_inv_def)
  from h have a: "screenBuffer st = None" "keyboard st \<noteq> None"
    "func (screenWidth st) (screenHeight st) = Some screen" "screenLastUpdate st \<noteq> Some screen"
    and b: "buf = screen_to_buffer screen (screenWidth st) (screenHeight st)"
    by simp_all
  show "written (drain dw (waits dw (length (split_chunks buf)))
                    (sendToKeyboard dw True func st))
            = written st @ map (Pair (FramePacket (next_send st))) (split_chunks buf)"
    unfolding b
      send_runs_to_the_end [where st = st and func = func and screen = screen, OF idle a]
    by simp
qed

theorem C1_chunked_packets_witness:
  "length (split_chunks (65 # replicate 61 32)) = 3
   \<and> (1::nat) < length (split_chunks (65 # replicate 61 32))
   \<and> (\<exists>payload. split_chunks (65 # replicate 61 32) ! 1 = [0, 3] @ payload
          \<and> length payload \<le> 30)
   \<and> reachable finished \<and> screenBuffer finished = None \<and> keyboard finished \<noteq> None
   \<and> text_AB (screenWidth finished) (screenHeight finished) = Some [0x41, 0x42]
   \<and> screenLastUpdate finished \<noteq> Some [0x41, 0x42]
   \<and> 65 # replicate 61 32
       = screen_to_buffer [0x41, 0x42] (screenWidth finished) (screenHeight finished)
   \<and> written (drain True 6 (sendToKeyboard True True text_AB finished)) =
        written finished @ [(FramePacket 1, 0 # 2 # 65 # replicate 29 32),
          (FramePacket 1, 0 # 3 # replicate 30 32), (FramePacket 1, [0, 3, 32, 32])]"
proof -
  note c = C1_chunked_packets [where buf = "65 # replicate 61 32" and st = finished
      and func = text_AB and screen = "[0x41, 0x42]" and dw = True]
  from c have n: "length (split_chunks (65 # replicate 61 32)) = 3"
    by simp
  then have one: "(1::nat) < length (split_chunks (65 # replicate 61 32))"
    by simp
  from c [THEN conjunct2, THEN conjunct1, rule_format, OF one]
  have p: "\<exists>payload. split_chunks (65 # replicate 61 32) ! 1 = [0, 3] @ payload
          \<and> length payload \<le> 30"
    by simp
  have h: "reachable finished \<and> screenBuffer finished = None \<and> keyboard finished \<noteq> None
   \<and> text_AB (screenWidth finished) (screenHeight finished) = Some [0x41, 0x42]
   \<and> screenLastUpdate finished \<noteq> Some [0x41, 0x42]
   \<and> 65 # replicate 61 32
       = screen_to_buffer [0x41, 0x42] (screenWidth finished) (screenHeight finished)"
    by (simp add: reachable_finished finished_fields text_AB_def screen_to_buffer_def frame_AB)
  from c [THEN conjunct2, THEN conjunct2, THEN conjunct2, rule_format, OF h]
  have w: "written (drain True 6 (sendToKeyboard True True text_AB finished)) =
        written finished @ [(FramePacket 1, 0 # 2 # 65 # replicate 29 32),
          (FramePacket 1, 0 # 3 # replicate 30 32), (FramePacket 1, [0, 3, 32, 32])]"
    by (simp add: n waits_def packets_AB finished_fields)
  from n one p h w show ?thesis
    by (intro conjI) simp_all
qed

end
